theory Spec2Isabelle
  imports Main "HOL-Library.Monad_Syntax"
begin

section \<open>The access controller of tinker\_access\_client (Client.py)\<close>

text \<open>
  A shallow embedding of the \<^verbatim>\<open>Client\<close> state machine.  Conventions:

  \<^item> The configuration, the externally driven input pins, the wall clock and the
    authorization server are the environment \<open>env\<close>, passed to every function
    (\<^verbatim>\<open>self.__opts\<close> is never assigned after the constructor).
  \<^item> Everything the controller mutates is the record \<open>client\<close>, passed and
    returned.
  \<^item> Time is a clock in milliseconds that only \<^verbatim>\<open>time.sleep\<close> advances;
    \<^verbatim>\<open>time.time()\<close> reads it.
  \<^item> A function that may fail to return normally has an \<open>option\<close> result; \<open>None\<close>
    means that the call raises or never returns.
\<close>

subsection \<open>Data model\<close>

text \<open>
  Modelled from the spec: State (State.py is not under src/).  The eight modes of
  section 3 of the specification; the callbacks \<^verbatim>\<open>on_enter_idle\<close>, \<^verbatim>\<open>on_enter_in_use\<close>, ...
  of Client.py are registered under the lower-case names.
\<close>

datatype State =
  INITIALIZED | IDLE | IN_USE | UNLOCKED | IN_TRAINING | ESTOP | BYPASSED | TERMINATED

definition state_name :: "State \<Rightarrow> string" where
  "state_name s =
     (case s of
        INITIALIZED \<Rightarrow> ''initialized''
      | IDLE \<Rightarrow> ''idle''
      | IN_USE \<Rightarrow> ''in_use''
      | UNLOCKED \<Rightarrow> ''unlocked''
      | IN_TRAINING \<Rightarrow> ''in_training''
      | ESTOP \<Rightarrow> ''estop''
      | BYPASSED \<Rightarrow> ''bypassed''
      | TERMINATED \<Rightarrow> ''terminated'')"

text \<open>\<^verbatim>\<open>class Trigger\<close>: the seven trigger names.\<close>

datatype Trigger = Idle | Estop | Bypass | Unlock | Login | Logout | Terminate

text \<open>
  The options Client.py reads through \<^verbatim>\<open>self.__opts.get(ClientOption.X)\<close>.  Pins are
  pin numbers; the timeout is in seconds and \<open>None\<close> when unset; the coast time is in
  seconds (\<open>0\<close> is Python's falsy value).
\<close>

record options =
  pin_power_relay :: nat
  pin_current_sense :: nat
  pin_logout :: nat
  pin_estop :: nat
  pin_bypass_detect :: nat
  pin_led_red :: nat
  pin_alarm :: nat
  use_estop :: bool
  estop_active_hi :: bool
  use_bypass_detect :: bool
  use_alarm :: bool
  is_a_door :: bool
  door_continuous_unlock :: bool
  door_normal_hr_start :: int
  door_normal_hr_end :: int
  disable_training_mode :: bool
  allow_user_override :: bool
  max_power_down_timeout :: "nat option"
  logout_coast_time :: nat

text \<open>\<^verbatim>\<open>float('inf')\<close> is the only non-integer value of \<^verbatim>\<open>remaining_extensions\<close>.\<close>

datatype extensions = Finite int | Unbounded

record user_info =
  badge_code :: string
  user_id :: string
  user_name :: string
  session_seconds :: int
  remaining_seconds :: int
  remaining_extensions :: extensions

text \<open>
  Modelled from the spec: TinkerAccessServerApi (not under src/).  The answers of
  \<^verbatim>\<open>login\<close> and \<^verbatim>\<open>register_user\<close>, as section 6 of the specification and the
  \<^verbatim>\<open>except\<close> clauses of Client.py have them: a value, the named exception, or any
  other exception.  The server's answer depends on the arguments of the call only.
\<close>

datatype login_result =
  Granted user_info | UnauthorizedAccessException | LoginException

datatype register_result =
  Registered | UserRegistrationException | RegisterException

text \<open>A \<^verbatim>\<open>datetime.time\<close>: hour, minute, second, microsecond.\<close>

type_synonym time_of_day = "nat \<times> nat \<times> nat \<times> nat"

record env =
  opts :: options
  signal :: "nat \<Rightarrow> (nat \<Rightarrow> bool) option"
  wall_time :: "nat \<Rightarrow> time_of_day"
  server_login :: "string option \<Rightarrow> login_result"
  server_register_user :: "string \<Rightarrow> string \<Rightarrow> string option \<Rightarrow> register_result"

text \<open>
  \<open>signal e p = Some f\<close>: pin \<open>p\<close> is an input driven from outside, at level \<open>f t\<close> at
  time \<open>t\<close>.  \<open>signal e p = None\<close>: pin \<open>p\<close> is an output, read back at the level last
  written.
\<close>

text \<open>The screens written to the LCD, before centring to 16 characters.\<close>

datatype screen =
  Estop_activated | Is_bypassed | Attempting_login | Access_denied | Scan_badge
  | Is_unlocked | Access_granted | Remaining_time string int | Session_extended
  | No_extensions_remaining | Training_mode_activated | Scan_trainer_badge
  | Trainer_accepted | Scan_student_badge | Attempting_registration
  | Student_registered | Registration_failed | Invalid_user | Disabling_power
  | Waiting_for_power_down | Coasting_down | Error_occurred | Please_try_again

datatype device_write =
  Write_PIN nat bool | Write_LED bool bool bool | Write_LCD screen

record device =
  pins :: "nat \<Rightarrow> bool"
  led :: "bool \<times> bool \<times> bool"
  lcd :: "screen option"
  written :: "device_write list"

record client =
  state :: State
  user_info :: "user_info option"
  relock_timer :: "nat option"
  logout_timer :: "nat option"
  queue :: "(Trigger \<times> string option) list"
  device :: device
  clock :: nat
  server_logouts :: "string list"
  status_file :: string

text \<open>
  A timer handle is the time at which it is due.  \<open>queue\<close> is the machine's
  transition queue (\<^verbatim>\<open>queued=True\<close>); \<open>server_logouts\<close> lists the badge codes of the
  asynchronous logout notifications sent; \<open>status_file\<close> is the content of the status
  file.
\<close>

subsection \<open>Device access and sleeping\<close>

text \<open>
  Modelled from the spec: DeviceApi (not under src/), by section 6 of the
  specification: \<^verbatim>\<open>read(PIN, pin)\<close> gives the level of a pin, \<^verbatim>\<open>write(PIN, pin, level)\<close>
  sets it, and writes to the LED and LCD channels set the LED colour and the LCD text.
  An input pin reads the signal of the environment at the time of the read; an output
  pin reads back the level last written.  The channels are separate: a write to the
  LED or LCD channel changes no pin.  Every write is recorded in \<open>written\<close>, in order.
\<close>

definition device_read :: "env \<Rightarrow> client \<Rightarrow> nat \<Rightarrow> bool" where
  "device_read e c p =
     (case signal e p of Some f \<Rightarrow> f (clock c) | None \<Rightarrow> pins (device c) p)"

definition device_write :: "device_write \<Rightarrow> client \<Rightarrow> client" where
  "device_write w c =
     (let d = device c;
          d' = (case w of
                  Write_PIN p v \<Rightarrow> d\<lparr>pins := (pins d)(p := v)\<rparr>
                | Write_LED r g b \<Rightarrow> d\<lparr>led := (r, g, b)\<rparr>
                | Write_LCD s \<Rightarrow> d\<lparr>lcd := Some s\<rparr>)
      in c\<lparr>device := d'\<lparr>written := written d @ [w]\<rparr>\<rparr>)"

definition sleep :: "nat \<Rightarrow> client \<Rightarrow> client" where
  "sleep ms c = c\<lparr>clock := clock c + ms\<rparr>"

definition show_screen :: "screen \<Rightarrow> nat \<Rightarrow> client \<Rightarrow> client" where
  "show_screen s delay c = sleep (1000 * delay) (device_write (Write_LCD s) c)"

subsection \<open>Normal hours\<close>

text \<open>\<^verbatim>\<open>datetime.time(hour, minute)\<close> raises ValueError outside 0..23 and 0..59.\<close>

definition datetime_time :: "int \<Rightarrow> int \<Rightarrow> time_of_day option" where
  "datetime_time hr mi =
     (if 0 \<le> hr \<and> hr \<le> 23 \<and> 0 \<le> mi \<and> mi \<le> 59 then Some (nat hr, nat mi, 0, 0) else None)"

text \<open>Comparison of \<^verbatim>\<open>datetime.time\<close> values: the four fields, lexicographically.\<close>

fun time_le :: "time_of_day \<Rightarrow> time_of_day \<Rightarrow> bool" where
  "time_le (h1, m1, s1, u1) (h2, m2, s2, u2) =
     (h1 < h2 \<or> (h1 = h2 \<and> (m1 < m2 \<or> (m1 = m2 \<and> (s1 < s2 \<or> (s1 = s2 \<and> u1 \<le> u2))))))"

text \<open>\<^verbatim>\<open>is_normal_hours\<close>, with the time read from the wall clock as a parameter; \<^verbatim>\<open>/\<close> is
  the integer division of Python 2, here on values that are not negative.\<close>

definition is_normal_hours_at :: "options \<Rightarrow> time_of_day \<Rightarrow> bool option" where
  "is_normal_hours_at os now =
     (let start_time = door_normal_hr_start os;
          start_time = (if start_time < 0 then 0
                        else if start_time > 2359 then 2359 else start_time);
          start_hr = start_time div 100;
          start_min = start_time mod 100;
          start_min = (if start_min > 59 then 59 else start_min);
          end_time = door_normal_hr_end os;
          end_time = (if end_time < 0 then 0
                      else if end_time > 2359 then 2359 else end_time);
          end_hr = end_time div 100;
          end_min = end_time mod 100;
          end_min = (if end_min > 59 then 59 else end_min)
      in case datetime_time start_hr start_min of
           None \<Rightarrow> None
         | Some start \<Rightarrow>
             (case datetime_time end_hr end_min of
                None \<Rightarrow> None
              | Some end' \<Rightarrow> Some (time_le start now \<and> time_le now end')))"

definition is_normal_hours :: "env \<Rightarrow> client \<Rightarrow> bool option" where
  "is_normal_hours e c = is_normal_hours_at (opts e) (wall_time e (clock c))"

text \<open>
  The window as the specification words it: an HHMM value clamped to \<open>[0, 2359]\<close>, its
  minute component clamped to \<open>[0, 59]\<close>, and times compared as instants of the day
  (microseconds since midnight).
\<close>

definition hhmm_clamped :: "int \<Rightarrow> int" where
  "hhmm_clamped v = max 0 (min 2359 v)"

definition hhmm_minute :: "int \<Rightarrow> int" where
  "hhmm_minute v = max 0 (min 59 (hhmm_clamped v mod 100))"

definition hhmm_instant :: "int \<Rightarrow> nat" where
  "hhmm_instant v =
     ((nat (hhmm_clamped v div 100) * 60 + nat (hhmm_minute v)) * 60) * 1000000"

definition instant :: "time_of_day \<Rightarrow> nat" where
  "instant t =
     (case t of (h, m, s, u) \<Rightarrow> ((h * 60 + m) * 60 + s) * 1000000 + u)"

definition valid_time :: "time_of_day \<Rightarrow> bool" where
  "valid_time t = (case t of (h, m, s, u) \<Rightarrow> h < 24 \<and> m < 60 \<and> s < 60 \<and> u < 1000000)"

definition within_normal_hours :: "options \<Rightarrow> time_of_day \<Rightarrow> bool" where
  "within_normal_hours os now =
     (hhmm_instant (door_normal_hr_start os) \<le> instant now \<and>
      instant now \<le> hhmm_instant (door_normal_hr_end os))"

subsection \<open>LED, alarm and user context\<close>

definition set_alarm_output :: "env \<Rightarrow> bool \<Rightarrow> client \<Rightarrow> client" where
  "set_alarm_output e st c =
     (if use_alarm (opts e) then device_write (Write_PIN (pin_alarm (opts e)) st) c else c)"

definition show_red_led :: "env \<Rightarrow> client \<Rightarrow> client" where
  "show_red_led e c = set_alarm_output e True (device_write (Write_LED True False False) c)"

definition show_yellow_led :: "env \<Rightarrow> client \<Rightarrow> client" where
  "show_yellow_led e c = set_alarm_output e False (device_write (Write_LED True True False) c)"

definition show_blue_led :: "env \<Rightarrow> client \<Rightarrow> client" where
  "show_blue_led e c = set_alarm_output e False (device_write (Write_LED False False True) c)"

definition show_green_led :: "env \<Rightarrow> client \<Rightarrow> client" where
  "show_green_led e c = set_alarm_output e False (device_write (Write_LED False True False) c)"

definition show_magenta_led :: "env \<Rightarrow> client \<Rightarrow> client" where
  "show_magenta_led e c = set_alarm_output e False (device_write (Write_LED True False True) c)"

definition toggle_red_led :: "env \<Rightarrow> client \<Rightarrow> client" where
  "toggle_red_led e c =
     (let red_led_status = device_read e c (pin_led_red (opts e))
      in set_alarm_output e True (device_write (Write_LED (\<not> red_led_status) False False) c))"

text \<open>The logger's context filters are not part of the model.\<close>

definition update_user_context :: "user_info option \<Rightarrow> client \<Rightarrow> client" where
  "update_user_context u c = c\<lparr>user_info := u\<rparr>"

definition handle_unauthorized_access_exception :: "env \<Rightarrow> client \<Rightarrow> client" where
  "handle_unauthorized_access_exception e c = show_screen Access_denied 2 (show_red_led e c)"

definition handle_unexpected_exception :: "env \<Rightarrow> client \<Rightarrow> client" where
  "handle_unexpected_exception e c =
     show_screen Please_try_again 2 (show_screen Error_occurred 2 (show_red_led e c))"

definition handle_user_registration_exception :: "env \<Rightarrow> client \<Rightarrow> client" where
  "handle_user_registration_exception e c =
     show_screen Registration_failed 2 (show_red_led e c)"

subsection \<open>Timers\<close>

text \<open>
  The lock of the logout timer serialises threads and is not modelled; \<open>refresh\<close> only
  chooses whether the lock is taken.
\<close>

definition cancel_logout_timer :: "bool \<Rightarrow> client \<Rightarrow> client" where
  "cancel_logout_timer refresh c = c\<lparr>logout_timer := None\<rparr>"

definition cancel_relock_timer :: "client \<Rightarrow> client" where
  "cancel_relock_timer c = c\<lparr>relock_timer := None\<rparr>"

definition logout_timer_interval_seconds :: nat where
  "logout_timer_interval_seconds = 1"

definition training_mode_delay_seconds :: nat where
  "training_mode_delay_seconds = 2"

definition start_logout_timer :: "bool \<Rightarrow> client \<Rightarrow> client" where
  "start_logout_timer refresh c =
     (let c1 = cancel_logout_timer refresh c
      in c1\<lparr>logout_timer := Some (clock c1 + 1000 * logout_timer_interval_seconds)\<rparr>)"

definition start_relock_timer :: "client \<Rightarrow> client" where
  "start_relock_timer c =
     (let c1 = cancel_relock_timer c in c1\<lparr>relock_timer := Some (clock c1 + 1000 * 60)\<rparr>)"

text \<open>\<^verbatim>\<open>__do_logout\<close>; the server's logout runs on a thread of its own and is only recorded.\<close>

definition do_logout :: "client \<Rightarrow> client" where
  "do_logout c =
     (let c1 = cancel_relock_timer (cancel_logout_timer False c);
          c2 = (case user_info c1 of
                  Some u \<Rightarrow> c1\<lparr>server_logouts := server_logouts c1 @ [badge_code u]\<rparr>
                | None \<Rightarrow> c1)
      in update_user_context None c2)"

subsection \<open>Power\<close>

definition enable_power :: "env \<Rightarrow> client \<Rightarrow> client" where
  "enable_power e c = device_write (Write_PIN (pin_power_relay (opts e)) True) c"

text \<open>\<^verbatim>\<open>time.time() - current < max_power_down_timeout\<close>, the timeout in seconds and
  infinite when unset.\<close>

definition before_timeout :: "nat \<Rightarrow> nat option \<Rightarrow> bool" where
  "before_timeout elapsed_ms timeout =
     (case timeout of None \<Rightarrow> True | Some t \<Rightarrow> elapsed_ms < 1000 * t)"

text \<open>The \<^verbatim>\<open>while\<close> loop of \<^verbatim>\<open>__wait_for_power_down\<close>; it need not end.\<close>

partial_function (option) power_down_loop ::
  "env \<Rightarrow> nat \<Rightarrow> bool \<Rightarrow> client \<Rightarrow> (bool \<times> client) option" where
  "power_down_loop e current is_machine_running c =
     (if before_timeout (clock c - current) (max_power_down_timeout (opts e)) \<and>
         device_read e c (pin_current_sense (opts e))
      then power_down_loop e current True
             (sleep 500 (show_screen Waiting_for_power_down 0 (show_red_led e c)))
      else Some (is_machine_running, c))"

definition wait_for_power_down :: "env \<Rightarrow> client \<Rightarrow> (bool \<times> client) option" where
  "wait_for_power_down e c = power_down_loop e (clock c) False c"

definition wait_for_logout_coast_time :: "env \<Rightarrow> client \<Rightarrow> client" where
  "wait_for_logout_coast_time e c =
     (let logout_coast_time = logout_coast_time (opts e)
      in if logout_coast_time \<noteq> 0
         then sleep (1000 * logout_coast_time) (show_screen Coasting_down 0 c)
         else c)"

definition disable_power :: "env \<Rightarrow> client \<Rightarrow> client option" where
  "disable_power e c =
     (let power_relay_pin = pin_power_relay (opts e)
      in do {
        c1 \<leftarrow> (if device_read e c power_relay_pin
               then do {
                 (is_machine_running, c') \<leftarrow> wait_for_power_down e c;
                 Some (if is_machine_running then wait_for_logout_coast_time e c' else c')
               }
               else Some c);
        Some (if device_read e c1 power_relay_pin
              then show_screen Disabling_power 0 (device_write (Write_PIN power_relay_pin False) c1)
              else c1)
      })"

subsection \<open>What each mode ensures\<close>

definition ensure_estop :: "env \<Rightarrow> client \<Rightarrow> client option" where
  "ensure_estop e c = do {
     c1 \<leftarrow> disable_power e (do_logout c);
     Some (show_screen Estop_activated 0 (show_red_led e c1))
   }"

definition ensure_bypass :: "env \<Rightarrow> client \<Rightarrow> client option" where
  "ensure_bypass e c = do {
     c1 \<leftarrow> disable_power e (do_logout c);
     Some (show_screen Is_bypassed 0 (show_yellow_led e c1))
   }"

definition ensure_idle :: "env \<Rightarrow> client \<Rightarrow> client option" where
  "ensure_idle e c = do {
     c1 \<leftarrow> disable_power e (do_logout c);
     Some (show_screen Scan_badge 0 (show_blue_led e c1))
   }"

definition ensure_unlocked :: "env \<Rightarrow> client \<Rightarrow> client" where
  "ensure_unlocked e c =
     show_screen Is_unlocked 0 (show_green_led e (enable_power e (do_logout c)))"

definition ensure_in_use :: "env \<Rightarrow> client \<Rightarrow> client" where
  "ensure_in_use e c = show_green_led e (enable_power e c)"

definition ensure_training_mode :: "env \<Rightarrow> client \<Rightarrow> client option" where
  "ensure_training_mode e c = do {
     c1 \<leftarrow> disable_power e (do_logout c);
     Some (show_screen Training_mode_activated 1 (show_magenta_led e c1))
   }"

subsection \<open>Login and session\<close>

text \<open>
  \<^verbatim>\<open>__do_login\<close>: the \<^verbatim>\<open>try\<close> block and its two handlers.  \<open>badge\<close> is
  \<^verbatim>\<open>kwargs.get('badge_code')\<close>, \<open>None\<close> when the keyword is absent.
\<close>

definition do_login :: "env \<Rightarrow> bool \<Rightarrow> string option \<Rightarrow> client \<Rightarrow> (bool \<times> client) option" where
  "do_login e override badge c =
     (let c1 = show_screen Attempting_login 1 c
      in do {
        c2 \<leftarrow> (case server_login e badge of
                 Granted u \<Rightarrow>
                   Some (show_screen Access_granted 1 (update_user_context (Some u) c1))
               | UnauthorizedAccessException \<Rightarrow>
                   (let c' = handle_unauthorized_access_exception e c1
                    in if \<not> override then ensure_idle e c' else Some (ensure_in_use e c'))
               | LoginException \<Rightarrow>
                   (let c' = handle_unexpected_exception e c1
                    in if \<not> override then ensure_idle e c' else Some (ensure_in_use e c')));
        Some (user_info c2 \<noteq> None, c2)
      })"

text \<open>Python's truth value of a string or \<^verbatim>\<open>None\<close>.\<close>

definition truthy :: "string option \<Rightarrow> bool" where
  "truthy x = (case x of None \<Rightarrow> False | Some s \<Rightarrow> s \<noteq> [])"

definition is_current_badge_code :: "string option \<Rightarrow> client \<Rightarrow> bool" where
  "is_current_badge_code new_badge_code c =
     (let current_badge_code =
            (case user_info c of Some u \<Rightarrow> Some (badge_code u) | None \<Rightarrow> None)
      in if truthy current_badge_code \<and> current_badge_code = new_badge_code then True
         else False)"

text \<open>\<^verbatim>\<open>self.__user_info.get\<close> raises AttributeError when there is no user.\<close>

definition show_remaining_time :: "env \<Rightarrow> client \<Rightarrow> client option" where
  "show_remaining_time e c =
     (case user_info c of
        None \<Rightarrow> None
      | Some u \<Rightarrow>
          (let remaining = remaining_seconds u;
               c1 = (if remaining < 300 then toggle_red_led e c else c)
           in Some (show_screen (Remaining_time (user_name u) remaining) 0 c1)))"

definition extensions_truthy :: "extensions \<Rightarrow> bool" where
  "extensions_truthy x = (case x of Finite n \<Rightarrow> n \<noteq> 0 | Unbounded \<Rightarrow> True)"

definition extend_session :: "env \<Rightarrow> client \<Rightarrow> client option" where
  "extend_session e c =
     (let c1 = cancel_logout_timer False c
      in case user_info c1 of
           None \<Rightarrow> None
         | Some u \<Rightarrow> do {
             c2 \<leftarrow> (if extensions_truthy (remaining_extensions u)
                    then
                      (let u1 = (case remaining_extensions u of
                                   Finite n \<Rightarrow> u\<lparr>remaining_extensions := Finite (n - 1)\<rparr>
                                 | Unbounded \<Rightarrow> u);
                           u2 = u1\<lparr>remaining_seconds := remaining_seconds u + session_seconds u\<rparr>
                       in show_remaining_time e
                            (show_screen Session_extended 1 (c1\<lparr>user_info := Some u2\<rparr>)))
                    else show_remaining_time e (show_screen No_extensions_remaining 2 c1));
             Some (start_logout_timer False c2)
           })"

subsection \<open>Training\<close>

definition prompt_for_trainer_badge :: "env \<Rightarrow> client \<Rightarrow> client" where
  "prompt_for_trainer_badge e c = show_screen Scan_trainer_badge 0 (show_magenta_led e c)"

definition prompt_for_student_badge :: "env \<Rightarrow> client \<Rightarrow> client" where
  "prompt_for_student_badge e c = show_screen Scan_student_badge 0 (show_magenta_led e c)"

definition activate_trainer :: "env \<Rightarrow> string option \<Rightarrow> client \<Rightarrow> bool \<times> client" where
  "activate_trainer e badge c =
     (let c1 = show_screen Attempting_login 1 c;
          c2 = (case server_login e badge of
                  Granted u \<Rightarrow>
                    prompt_for_student_badge e
                      (show_screen Trainer_accepted 1 (update_user_context (Some u) c1))
                | UnauthorizedAccessException \<Rightarrow>
                    prompt_for_trainer_badge e (handle_unauthorized_access_exception e c1)
                | LoginException \<Rightarrow>
                    prompt_for_trainer_badge e (handle_unexpected_exception e c1))
      in (user_info c2 \<noteq> None, c2))"

definition register_student :: "env \<Rightarrow> string option \<Rightarrow> client \<Rightarrow> client" where
  "register_student e badge c =
     (let c1 = show_screen Attempting_registration 1 c;
          c2 = (case user_info c1 of
                  None \<Rightarrow>
                    handle_unexpected_exception e (handle_user_registration_exception e c1)
                | Some u \<Rightarrow>
                    (case server_register_user e (user_id u) (badge_code u) badge of
                       Registered \<Rightarrow> show_screen Student_registered 1 c1
                     | UserRegistrationException \<Rightarrow>
                         show_screen Invalid_user 2 (handle_user_registration_exception e c1)
                     | RegisterException \<Rightarrow>
                         handle_unexpected_exception e
                           (handle_user_registration_exception e c1)))
      in prompt_for_student_badge e c2)"

subsection \<open>Conditions\<close>

definition is_estop_activated :: "env \<Rightarrow> client \<Rightarrow> bool" where
  "is_estop_activated e c =
     (use_estop (opts e) \<and>
      ((estop_active_hi (opts e) \<and> device_read e c (pin_estop (opts e))) \<or>
       (\<not> estop_active_hi (opts e) \<and> \<not> device_read e c (pin_estop (opts e)))))"

definition is_bypass_detected :: "env \<Rightarrow> client \<Rightarrow> bool" where
  "is_bypass_detected e c =
     (use_bypass_detect (opts e) \<and> device_read e c (pin_bypass_detect (opts e)))"

definition is_terminated :: "client \<Rightarrow> bool" where
  "is_terminated c = (state c = TERMINATED)"

definition is_authorized :: "env \<Rightarrow> string option \<Rightarrow> client \<Rightarrow> (bool \<times> client) option" where
  "is_authorized e badge c = do_login e False badge c"

text \<open>The \<^verbatim>\<open>while\<close> loop of \<^verbatim>\<open>is_waiting_for_training\<close>.\<close>

function training_poll :: "env \<Rightarrow> nat \<Rightarrow> client \<Rightarrow> client" where
  "training_poll e current c =
     (if \<not> is_terminated c \<and> clock c - current < 1000 * training_mode_delay_seconds \<and>
         device_read e c (pin_logout (opts e))
      then training_poll e current (sleep 100 c)
      else c)"
  by pat_completeness auto
termination
  by (relation "measure (\<lambda>(e, current, c). 1000 * training_mode_delay_seconds + current - clock c)")
     (auto simp: sleep_def)

definition is_waiting_for_training :: "env \<Rightarrow> client \<Rightarrow> bool \<times> client" where
  "is_waiting_for_training e c =
     (if (is_a_door (opts e) \<and> door_continuous_unlock (opts e)) \<or>
         disable_training_mode (opts e)
      then (False, c)
      else (let c1 = training_poll e (clock c) c
            in (device_read e c1 (pin_logout (opts e)), c1)))"

definition should_extend_current_session ::
  "env \<Rightarrow> string option \<Rightarrow> client \<Rightarrow> (bool \<times> client) option" where
  "should_extend_current_session e badge c =
     (if is_current_badge_code badge c then do {
        c1 \<leftarrow> extend_session e c;
        Some (True, c1)
      }
      else if allow_user_override (opts e) then do {
        (r, c1) \<leftarrow> do_login e True badge (cancel_logout_timer False c);
        Some (True, c1)
      }
      else Some (False, c))"

subsection \<open>The state machine\<close>

text \<open>
  The table handed to \<^verbatim>\<open>Machine.__init__\<close>, in the order of the source.  The machine is
  the \<^verbatim>\<open>transitions\<close> library: a trigger looks up the transitions listed for the
  current state, in order; the first whose conditions all hold sets the state to its
  destination, runs the destination's \<^verbatim>\<open>on_enter\<close> callback and then
  \<^verbatim>\<open>after_state_change\<close>; a trigger with no transition from the current state is
  ignored (\<^verbatim>\<open>ignore_invalid_triggers=True\<close>).
\<close>

datatype Condition =
  Is_normal_hours | Is_authorized | Should_extend_current_session | Is_waiting_for_training

record transition =
  source :: "State list"
  trigger :: Trigger
  dest :: State
  conditions :: "Condition list"

definition all_states :: "State list" where
  "all_states =
     [INITIALIZED, IDLE, IN_USE, UNLOCKED, IN_TRAINING, ESTOP, BYPASSED, TERMINATED]"

definition transitions :: "transition list" where
  "transitions =
     [\<lparr>source = [INITIALIZED, ESTOP, BYPASSED], trigger = Idle, dest = IDLE, conditions = []\<rparr>,
      \<lparr>source = [INITIALIZED, BYPASSED, IDLE, IN_USE, IN_TRAINING], trigger = Estop,
        dest = ESTOP, conditions = []\<rparr>,
      \<lparr>source = [INITIALIZED, ESTOP, IDLE, IN_TRAINING], trigger = Bypass,
        dest = BYPASSED, conditions = []\<rparr>,
      \<lparr>source = [IDLE, IN_USE], trigger = Unlock, dest = UNLOCKED,
        conditions = [Is_normal_hours]\<rparr>,
      \<lparr>source = [IDLE], trigger = Login, dest = IN_USE, conditions = [Is_authorized]\<rparr>,
      \<lparr>source = [IN_USE], trigger = Login, dest = IN_USE,
        conditions = [Should_extend_current_session]\<rparr>,
      \<lparr>source = [UNLOCKED, IN_USE, IN_TRAINING], trigger = Logout, dest = IDLE,
        conditions = []\<rparr>,
      \<lparr>source = [IDLE, ESTOP, BYPASSED], trigger = Logout, dest = IN_TRAINING,
        conditions = [Is_waiting_for_training]\<rparr>,
      \<lparr>source = all_states, trigger = Terminate, dest = TERMINATED, conditions = []\<rparr>]"

definition check_condition ::
  "env \<Rightarrow> Condition \<Rightarrow> string option \<Rightarrow> client \<Rightarrow> (bool \<times> client) option" where
  "check_condition e k badge c =
     (case k of
        Is_normal_hours \<Rightarrow> map_option (\<lambda>b. (b, c)) (is_normal_hours e c)
      | Is_authorized \<Rightarrow> is_authorized e badge c
      | Should_extend_current_session \<Rightarrow> should_extend_current_session e badge c
      | Is_waiting_for_training \<Rightarrow> Some (is_waiting_for_training e c))"

fun check_conditions ::
  "env \<Rightarrow> Condition list \<Rightarrow> string option \<Rightarrow> client \<Rightarrow> (bool \<times> client) option" where
  "check_conditions e [] badge c = Some (True, c)"
| "check_conditions e (k # ks) badge c = do {
     (ok, c1) \<leftarrow> check_condition e k badge c;
     if ok then check_conditions e ks badge c1 else Some (False, c1)
   }"

text \<open>
  A trigger called from inside a callback finds the running trigger in the queue, so
  \<^verbatim>\<open>Machine._process\<close> only appends it.
\<close>

definition enqueue :: "Trigger \<Rightarrow> string option \<Rightarrow> client \<Rightarrow> client" where
  "enqueue t badge c = c\<lparr>queue := queue c @ [(t, badge)]\<rparr>"

definition on_enter_estop :: "env \<Rightarrow> client \<Rightarrow> client option" where
  "on_enter_estop e c = ensure_estop e c"

definition on_enter_bypassed :: "env \<Rightarrow> client \<Rightarrow> client option" where
  "on_enter_bypassed e c = ensure_bypass e c"

definition on_enter_idle :: "env \<Rightarrow> client \<Rightarrow> client option" where
  "on_enter_idle e c = do {
     c1 \<leftarrow> ensure_idle e c;
     let c2 = sleep 500 c1;
     Some (if is_bypass_detected e c2 then enqueue Bypass None c2 else c2)
   }"

definition on_enter_unlocked :: "env \<Rightarrow> client \<Rightarrow> client option" where
  "on_enter_unlocked e c = Some (start_relock_timer (ensure_unlocked e c))"

definition on_enter_in_use :: "env \<Rightarrow> client \<Rightarrow> client option" where
  "on_enter_in_use e c = Some (start_logout_timer False (ensure_in_use e c))"

definition on_enter_in_training :: "env \<Rightarrow> client \<Rightarrow> client option" where
  "on_enter_in_training e c = do {
     c1 \<leftarrow> ensure_training_mode e c;
     Some (show_screen Scan_trainer_badge 0 c1)
   }"

definition on_enter_terminated :: "env \<Rightarrow> client \<Rightarrow> client option" where
  "on_enter_terminated e c = ensure_idle e c"

definition on_enter :: "env \<Rightarrow> State \<Rightarrow> client \<Rightarrow> client option" where
  "on_enter e s c =
     (case s of
        INITIALIZED \<Rightarrow> Some c
      | IDLE \<Rightarrow> on_enter_idle e c
      | IN_USE \<Rightarrow> on_enter_in_use e c
      | UNLOCKED \<Rightarrow> on_enter_unlocked e c
      | IN_TRAINING \<Rightarrow> on_enter_in_training e c
      | ESTOP \<Rightarrow> on_enter_estop e c
      | BYPASSED \<Rightarrow> on_enter_bypassed e c
      | TERMINATED \<Rightarrow> on_enter_terminated e c)"

text \<open>\<^verbatim>\<open>update_status\<close>: the file is opened with mode \<^verbatim>\<open>'w'\<close>, which truncates it.\<close>

definition update_status :: "client \<Rightarrow> client" where
  "update_status c = c\<lparr>status_file := state_name (state c) @ [CHR 0x0A]\<rparr>"

text \<open>\<^verbatim>\<open>Transition.execute\<close>: the flag tells whether the transition took place.\<close>

definition execute ::
  "env \<Rightarrow> transition \<Rightarrow> string option \<Rightarrow> client \<Rightarrow> (bool \<times> client) option" where
  "execute e tr badge c = do {
     (ok, c1) \<leftarrow> check_conditions e (conditions tr) badge c;
     if \<not> ok then Some (False, c1)
     else do {
       c2 \<leftarrow> on_enter e (dest tr) (c1\<lparr>state := dest tr\<rparr>);
       Some (True, update_status c2)
     }
   }"

fun execute_first ::
  "env \<Rightarrow> transition list \<Rightarrow> string option \<Rightarrow> client \<Rightarrow> (bool \<times> client) option" where
  "execute_first e [] badge c = Some (False, c)"
| "execute_first e (tr # trs) badge c = do {
     (done, c1) \<leftarrow> execute e tr badge c;
     if done then Some (True, c1) else execute_first e trs badge c1
   }"

text \<open>\<^verbatim>\<open>Event._trigger\<close>: one trigger, from the current state.\<close>

definition fire :: "env \<Rightarrow> Trigger \<Rightarrow> string option \<Rightarrow> client \<Rightarrow> (bool \<times> client) option" where
  "fire e t badge c =
     execute_first e (filter (\<lambda>tr. trigger tr = t \<and> state c \<in> set (source tr)) transitions)
       badge c"

text \<open>
  \<^verbatim>\<open>Machine._process\<close> with \<^verbatim>\<open>queued=True\<close>: the trigger is appended to the queue; when
  it is the only entry, the queue is run until it is empty, each entry being removed
  after it has run.
\<close>

partial_function (option) run_queue :: "env \<Rightarrow> client \<Rightarrow> client option" where
  "run_queue e c =
     (case queue c of
        [] \<Rightarrow> Some c
      | x # xs \<Rightarrow> do {
          rc \<leftarrow> fire e (fst x) (snd x) c;
          run_queue e ((snd rc)\<lparr>queue := tl (queue (snd rc))\<rparr>)
        })"

definition call_trigger :: "env \<Rightarrow> Trigger \<Rightarrow> string option \<Rightarrow> client \<Rightarrow> client option" where
  "call_trigger e t badge c =
     (let c1 = enqueue t badge c
      in if length (queue c1) > 1 then Some c1 else run_queue e c1)"

subsection \<open>Timer callbacks\<close>


definition relock_timer_tick :: "env \<Rightarrow> client \<Rightarrow> client option" where
  "relock_timer_tick e c =
     (if \<not> is_terminated c \<and> relock_timer c \<noteq> None
      then do {
        normal \<leftarrow> is_normal_hours e c;
        if \<not> normal then call_trigger e Logout None c else Some (start_relock_timer c)
      }
      else Some c)"


definition relock_timer_fires :: "env \<Rightarrow> client \<Rightarrow> client option" where
  "relock_timer_fires e c =
     (case relock_timer c of
        None \<Rightarrow> Some c
      | Some due \<Rightarrow> relock_timer_tick e (c\<lparr>clock := max (clock c) due\<rparr>))"


subsection \<open>Device events\<close>

definition handle_badge_code :: "env \<Rightarrow> string option \<Rightarrow> client \<Rightarrow> client option" where
  "handle_badge_code e badge c =
     (if state c = IN_TRAINING then
        (if user_info c = None then
           (let r = activate_trainer e badge c
            in if fst r then Some (show_screen Scan_student_badge 0 (snd r))
               else Some (show_screen Scan_trainer_badge 0 (snd r)))
         else if \<not> is_current_badge_code badge c then Some (register_student e badge c)
         else Some c)
      else call_trigger e Login badge c)"

definition logout_detected :: "env \<Rightarrow> client \<Rightarrow> client option" where
  "logout_detected e c =
     (if is_estop_activated e c \<and> state c = IN_TRAINING then call_trigger e Estop None c
      else if is_bypass_detected e c \<and> state c = IN_TRAINING then call_trigger e Bypass None c
      else if is_a_door (opts e) \<and> door_continuous_unlock (opts e) \<and>
              (state c = IDLE \<or> state c = IN_USE)
      then call_trigger e Unlock None c
      else call_trigger e Logout None c)"

definition estop_change :: "env \<Rightarrow> client \<Rightarrow> client option" where
  "estop_change e c =
     (if is_estop_activated e c then
        (if state c \<noteq> IN_TRAINING then call_trigger e Estop None c else Some c)
      else if state c = ESTOP then
        (let c1 = sleep 500 c
         in if is_bypass_detected e c1 then call_trigger e Bypass None c1
            else call_trigger e Idle None c1)
      else Some c)"

definition bypass_change :: "env \<Rightarrow> client \<Rightarrow> client option" where
  "bypass_change e c =
     (if is_bypass_detected e c then
        (if state c = IDLE then call_trigger e Bypass None c else Some c)
      else if state c = BYPASSED then call_trigger e Idle None c
      else Some c)"

subsection \<open>Observations and a concrete installation\<close>

text \<open>The level the power relay is commanded to: the level last written to its pin.\<close>

definition relay_commanded :: "env \<Rightarrow> client \<Rightarrow> bool" where
  "relay_commanded e c = pins (device c) (pin_power_relay (opts e))"

text \<open>The level an input pin has at time \<open>t\<close>.\<close>

definition pin_at :: "env \<Rightarrow> client \<Rightarrow> nat \<Rightarrow> nat \<Rightarrow> bool" where
  "pin_at e c p t = device_read e (c\<lparr>clock := t\<rparr>) p"

text \<open>
  A machine tool: relay on pin 1, current sense on pin 2 (the tool draws current for
  the first 1.2 seconds), logout button on pin 3 (held for the first 5 seconds), E-stop
  on pin 4 and bypass on pin 5 (never active), alarm on pin 7; the server knows the
  badge A1 only.
\<close>

definition demo_opts :: options where
  "demo_opts =
     \<lparr>pin_power_relay = 1, pin_current_sense = 2, pin_logout = 3, pin_estop = 4,
      pin_bypass_detect = 5, pin_led_red = 6, pin_alarm = 7, use_estop = True,
      estop_active_hi = True, use_bypass_detect = True, use_alarm = True,
      is_a_door = False, door_continuous_unlock = False, door_normal_hr_start = 800,
      door_normal_hr_end = 1700, disable_training_mode = False,
      allow_user_override = True, max_power_down_timeout = Some 2,
      logout_coast_time = 1\<rparr>"

definition alice :: user_info where
  "alice =
     \<lparr>badge_code = ''A1'', user_id = ''uid_A1'', user_name = ''Alice'',
      session_seconds = 3600, remaining_seconds = 3600, remaining_extensions = Finite 2\<rparr>"

definition demo_signal :: "nat \<Rightarrow> (nat \<Rightarrow> bool) option" where
  "demo_signal p =
     (if p = 2 then Some (\<lambda>t. t < 1200)
      else if p = 3 then Some (\<lambda>t. t < 5000)
      else if p = 4 \<or> p = 5 then Some (\<lambda>t. False)
      else None)"

definition demo_env :: env where
  "demo_env =
     \<lparr>opts = demo_opts, signal = demo_signal, wall_time = (\<lambda>t. (12, 0, 0, 0)),
      server_login = (\<lambda>b. if b = Some ''A1'' then Granted alice
                           else UnauthorizedAccessException),
      server_register_user = (\<lambda>trainer_id trainer_badge student. Registered)\<rparr>"

definition demo_device :: "bool \<Rightarrow> device" where
  "demo_device relay = \<lparr>pins = (\<lambda>p. p = 1 \<and> relay), led = (False, False, False),
     lcd = None, written = []\<rparr>"

definition demo_idle :: client where
  "demo_idle =
     \<lparr>state = IDLE, user_info = None, relock_timer = None, logout_timer = None,
      queue = [], device = demo_device False, clock = 0, server_logouts = [],
      status_file = ''idle'' @ [CHR 0x0A]\<rparr>"

definition demo_in_use :: "int \<Rightarrow> client" where
  "demo_in_use n =
     \<lparr>state = IN_USE, user_info = Some (alice\<lparr>remaining_seconds := n\<rparr>),
      relock_timer = None, logout_timer = Some 1000, queue = [],
      device = demo_device True, clock = 0, server_logouts = [],
      status_file = ''in_use'' @ [CHR 0x0A]\<rparr>"

text \<open>The same installation as a door held unlocked, and with the E-stop pressed.\<close>

definition demo_unlocked :: client where
  "demo_unlocked =
     \<lparr>state = UNLOCKED, user_info = None, relock_timer = Some 60000, logout_timer = None,
      queue = [], device = demo_device True, clock = 0, server_logouts = [],
      status_file = ''unlocked'' @ [CHR 0x0A]\<rparr>"

definition demo_env_estop :: env where
  "demo_env_estop = demo_env\<lparr>signal := demo_signal(4 := Some (\<lambda>t. True))\<rparr>"

text \<open>
  Two assumptions about the world outside.  The power-down poll ends: a timeout is
  configured, or the current-sense input is low at some poll whenever polling starts.
  Bypass is never detected: detection is switched off, or the bypass input stays low.
\<close>

definition power_down_ends :: "env \<Rightarrow> bool" where
  "power_down_ends e =
     (max_power_down_timeout (opts e) \<noteq> None \<or>
      (\<exists>f. signal e (pin_current_sense (opts e)) = Some f \<and>
           (\<forall>t. \<exists>k. \<not> f (t + 500 * k))))"


text \<open>A user whose badge code is the empty string, and the installation without
  override.\<close>

definition nobody :: user_info where
  "nobody = alice\<lparr>badge_code := []\<rparr>"

definition demo_env_no_override :: env where
  "demo_env_no_override = demo_env\<lparr>opts := demo_opts\<lparr>allow_user_override := False\<rparr>\<rparr>"

definition demo_nobody :: client where
  "demo_nobody = (demo_in_use 5)\<lparr>user_info := Some nobody\<rparr>"

text \<open>The installation with a wall clock that reads 17:00:00 at time 0 and runs with
  the clock.\<close>

definition demo_env_door :: env where
  "demo_env_door =
     demo_env\<lparr>wall_time := (\<lambda>t. (17, 0, t div 1000 mod 60, (t mod 1000) * 1000))\<rparr>"

section \<open>Properties\<close>

declare training_poll.simps [simp del]

subsection \<open>Normal hours\<close>

lemma time_le_instant:
  assumes "valid_time a" "valid_time b"
  shows "time_le a b \<longleftrightarrow> instant a \<le> instant b"
proof -
  obtain h1 m1 s1 u1 where a: "a = (h1, m1, s1, u1)" by (cases a) auto
  obtain h2 m2 s2 u2 where b: "b = (h2, m2, s2, u2)" by (cases b) auto
  from assms a b have bnd:
    "m1 < 60" "s1 < 60" "u1 < 1000000" "m2 < 60" "s2 < 60" "u2 < 1000000"
    by (auto simp: valid_time_def)
  show ?thesis
    unfolding a b instant_def time_le.simps prod.case
    using bnd
    by (cases h1 h2 rule: linorder_cases; cases m1 m2 rule: linorder_cases;
        cases s1 s2 rule: linorder_cases) auto
qed

lemma datetime_time_hhmm:
  "datetime_time (hhmm_clamped v div 100) (hhmm_minute v) =
     Some (nat (hhmm_clamped v div 100), nat (hhmm_minute v), 0, 0)"
  by (auto simp: datetime_time_def hhmm_clamped_def hhmm_minute_def)

lemma valid_hhmm: "valid_time (nat (hhmm_clamped v div 100), nat (hhmm_minute v), 0, 0)"
  by (auto simp: valid_time_def hhmm_clamped_def hhmm_minute_def)

lemma instant_hhmm:
  "instant (nat (hhmm_clamped v div 100), nat (hhmm_minute v), 0, 0) = hhmm_instant v"
  by (simp add: instant_def hhmm_instant_def)

lemma clamp_code:
  "(if v < 0 then 0 else if v > 2359 then 2359 else v) = hhmm_clamped (v::int)"
  by (auto simp: hhmm_clamped_def)

lemma minute_code:
  "(if hhmm_clamped v mod 100 > 59 then 59 else hhmm_clamped v mod 100) = hhmm_minute v"
  by (auto simp: hhmm_minute_def hhmm_clamped_def)

lemma is_normal_hours_at_window:
  "valid_time now \<Longrightarrow> is_normal_hours_at os now = Some (within_normal_hours os now)"
  unfolding is_normal_hours_at_def Let_def clamp_code minute_code datetime_time_hhmm
    option.case within_normal_hours_def
  by (simp add: time_le_instant valid_hhmm instant_hhmm)

text \<open>
  C6.  For every configuration and every state of the controller, the guard
  \<^verbatim>\<open>is_normal_hours\<close>, alone and as the condition of the unlock transition, raises
  nothing, changes nothing and returns whether the wall-clock time at the moment of the
  call lies in the inclusive window from the start to the end instant, each derived
  from its HHMM option clamped to \<open>[0, 2359]\<close> with the minute component clamped to
  \<open>[0, 59]\<close>.
\<close>

theorem is_normal_hours_window:
  assumes "valid_time (wall_time e (clock c))"
  shows "is_normal_hours e c =
           Some (within_normal_hours (opts e) (wall_time e (clock c))) \<and>
         check_condition e Is_normal_hours badge c =
           Some (within_normal_hours (opts e) (wall_time e (clock c)), c)"
  using is_normal_hours_at_window [OF assms, of "opts e"]
  by (simp add: is_normal_hours_def check_condition_def)

theorem is_normal_hours_window_witness:
  "valid_time (wall_time demo_env_door (clock demo_idle)) \<and>
   wall_time demo_env_door (clock demo_idle) = (17, 0, 0, 0) \<and>
   is_normal_hours demo_env_door demo_idle = Some True \<and>
   valid_time (wall_time demo_env_door (clock (demo_idle\<lparr>clock := 1\<rparr>))) \<and>
   wall_time demo_env_door (clock (demo_idle\<lparr>clock := 1\<rparr>)) = (17, 0, 0, 1000) \<and>
   is_normal_hours demo_env_door (demo_idle\<lparr>clock := 1\<rparr>) = Some False \<and>
   check_condition demo_env_door Is_normal_hours None (demo_idle\<lparr>clock := 1\<rparr>) =
     Some (False, demo_idle\<lparr>clock := 1\<rparr>) \<and>
   valid_time (wall_time (demo_env\<lparr>opts := demo_opts\<lparr>door_normal_hr_start := 2999\<rparr>\<rparr>)
     (clock demo_idle)) \<and>
   is_normal_hours (demo_env\<lparr>opts := demo_opts\<lparr>door_normal_hr_start := 2999\<rparr>\<rparr>) demo_idle =
     Some False"
proof -
  let ?e = "demo_env\<lparr>opts := demo_opts\<lparr>door_normal_hr_start := 2999\<rparr>\<rparr>"
  have w: "wall_time demo_env_door (clock demo_idle) = (17, 0, 0, 0)"
    "wall_time demo_env_door (clock (demo_idle\<lparr>clock := 1\<rparr>)) = (17, 0, 0, 1000)"
    "wall_time ?e (clock demo_idle) = (12, 0, 0, 0)"
    by (simp_all add: demo_env_door_def demo_env_def demo_idle_def)
  have v: "valid_time (wall_time demo_env_door (clock demo_idle))"
    "valid_time (wall_time demo_env_door (clock (demo_idle\<lparr>clock := 1\<rparr>)))"
    "valid_time (wall_time ?e (clock demo_idle))"
    unfolding w by (simp_all add: valid_time_def)
  have o: "opts demo_env_door = demo_opts" "opts ?e = demo_opts\<lparr>door_normal_hr_start := 2999\<rparr>"
    by (simp_all add: demo_env_door_def demo_env_def)
  have a: "within_normal_hours demo_opts (17, 0, 0, 0)"
    "\<not> within_normal_hours demo_opts (17, 0, 0, 1000)"
    "\<not> within_normal_hours (demo_opts\<lparr>door_normal_hr_start := 2999\<rparr>) (12, 0, 0, 0)"
    by (simp_all add: within_normal_hours_def hhmm_instant_def hhmm_clamped_def
        hhmm_minute_def instant_def demo_opts_def)
  from is_normal_hours_window [OF v(1), of None]
    is_normal_hours_window [OF v(2), of None]
    is_normal_hours_window [OF v(3), of None]
  show ?thesis using v a unfolding w o by simp
qed

subsection \<open>Waiting for training\<close>

lemma training_poll_steps:
  assumes "clock c = t0 + 100 * i" "i \<le> 20"
  shows "\<exists>k. i \<le> k \<and> k \<le> 20 \<and> training_poll e t0 c = c\<lparr>clock := t0 + 100 * k\<rparr> \<and>
             (\<forall>j. i \<le> j \<and> j < k \<longrightarrow> pin_at e c (pin_logout (opts e)) (t0 + 100 * j)) \<and>
             (\<not> is_terminated c \<longrightarrow> k = 20 \<or> \<not> pin_at e c (pin_logout (opts e)) (t0 + 100 * k))"
  using assms
proof (induction "20 - i" arbitrary: i c)
  case 0
  then have i: "i = 20" by simp
  have "training_poll e t0 c = c"
    by (subst training_poll.simps) (simp add: 0 i training_mode_delay_seconds_def)
  then show ?case using 0 i by (intro exI[of _ 20]) auto
next
  case (Suc n)
  show ?case
  proof (cases "\<not> is_terminated c \<and> device_read e c (pin_logout (opts e))")
    case False
    have "training_poll e t0 c = c"
      using False by (subst training_poll.simps) auto
    moreover have "pin_at e c (pin_logout (opts e)) (t0 + 100 * i) = device_read e c (pin_logout (opts e))"
      using Suc.prems by (simp add: pin_at_def device_read_def split: option.splits)
    ultimately show ?thesis using False Suc.prems by (intro exI[of _ i]) auto
  next
    case True
    let ?c = "sleep 100 c"
    have step: "training_poll e t0 c = training_poll e t0 ?c"
      using True Suc.prems Suc.hyps by (subst training_poll.simps) (simp add: training_mode_delay_seconds_def)
    have "n = 20 - Suc i" "clock ?c = t0 + 100 * Suc i" "Suc i \<le> 20"
      using Suc.hyps Suc.prems by (auto simp: sleep_def)
    from Suc.hyps(1)[OF this] obtain k where k: "Suc i \<le> k" "k \<le> 20"
      "training_poll e t0 ?c = ?c\<lparr>clock := t0 + 100 * k\<rparr>"
      "\<forall>j. Suc i \<le> j \<and> j < k \<longrightarrow> pin_at e ?c (pin_logout (opts e)) (t0 + 100 * j)"
      "\<not> is_terminated ?c \<longrightarrow> k = 20 \<or> \<not> pin_at e ?c (pin_logout (opts e)) (t0 + 100 * k)"
      by blast
    have pa: "pin_at e ?c = pin_at e c" by (auto simp: pin_at_def sleep_def device_read_def fun_eq_iff)
    have here: "pin_at e c (pin_logout (opts e)) (t0 + 100 * i)"
      using True Suc.prems by (simp add: pin_at_def device_read_def split: option.splits)
    have all: "\<forall>j. i \<le> j \<and> j < k \<longrightarrow> pin_at e c (pin_logout (opts e)) (t0 + 100 * j)"
    proof (intro allI impI)
      fix j assume "i \<le> j \<and> j < k"
      then show "pin_at e c (pin_logout (opts e)) (t0 + 100 * j)"
        using k(4) here pa by (cases "j = i") auto
    qed
    show ?thesis
      using k all pa step by (intro exI[of _ k]) (auto simp: sleep_def is_terminated_def)
  qed
qed

text \<open>
  C7.  \<^verbatim>\<open>is_waiting_for_training\<close> returns false, without polling, when the controller is a
  continuous-unlock door or training mode is disabled.  Otherwise it samples the logout
  pin every 100 ms, at most 20 sleeps (2 seconds), stops at the first sample that is
  not asserted, and returns the level of the pin at the sample where it stopped; so
  (the machine not being terminated) it returns true exactly when the pin is asserted
  at every sample up to and including the one at 2 seconds.
\<close>

theorem is_waiting_for_training_spec:
  "((is_a_door (opts e) \<and> door_continuous_unlock (opts e)) \<or> disable_training_mode (opts e)
      \<longrightarrow> is_waiting_for_training e c = (False, c)) \<and>
   (\<not> ((is_a_door (opts e) \<and> door_continuous_unlock (opts e)) \<or> disable_training_mode (opts e))
      \<longrightarrow> (\<exists>k\<le>20. snd (is_waiting_for_training e c) = c\<lparr>clock := clock c + 100 * k\<rparr> \<and>
             fst (is_waiting_for_training e c) = pin_at e c (pin_logout (opts e)) (clock c + 100 * k) \<and>
             (\<forall>j<k. pin_at e c (pin_logout (opts e)) (clock c + 100 * j)) \<and>
             (\<not> is_terminated c \<longrightarrow> k = 20 \<or> \<not> pin_at e c (pin_logout (opts e)) (clock c + 100 * k))) \<and>
          (\<not> is_terminated c \<longrightarrow>
             fst (is_waiting_for_training e c) =
               (\<forall>j\<le>20. pin_at e c (pin_logout (opts e)) (clock c + 100 * j))))"
proof (intro conjI impI)
  assume "(is_a_door (opts e) \<and> door_continuous_unlock (opts e)) \<or> disable_training_mode (opts e)"
  then show "is_waiting_for_training e c = (False, c)"
    by (simp add: is_waiting_for_training_def)
next
  assume en: "\<not> ((is_a_door (opts e) \<and> door_continuous_unlock (opts e)) \<or> disable_training_mode (opts e))"
  from training_poll_steps[of c "clock c" 0 e] obtain k where k: "k \<le> 20"
    "training_poll e (clock c) c = c\<lparr>clock := clock c + 100 * k\<rparr>"
    "\<forall>j. j < k \<longrightarrow> pin_at e c (pin_logout (opts e)) (clock c + 100 * j)"
    "\<not> is_terminated c \<longrightarrow> k = 20 \<or> \<not> pin_at e c (pin_logout (opts e)) (clock c + 100 * k)"
    by auto
  have r: "is_waiting_for_training e c =
      (pin_at e c (pin_logout (opts e)) (clock c + 100 * k), c\<lparr>clock := clock c + 100 * k\<rparr>)"
    using en k(2) by (auto simp: is_waiting_for_training_def pin_at_def Let_def)
  show "\<exists>k\<le>20. snd (is_waiting_for_training e c) = c\<lparr>clock := clock c + 100 * k\<rparr> \<and>
             fst (is_waiting_for_training e c) = pin_at e c (pin_logout (opts e)) (clock c + 100 * k) \<and>
             (\<forall>j<k. pin_at e c (pin_logout (opts e)) (clock c + 100 * j)) \<and>
             (\<not> is_terminated c \<longrightarrow> k = 20 \<or> \<not> pin_at e c (pin_logout (opts e)) (clock c + 100 * k))"
    using k r by (intro exI[of _ k]) simp
  {
    assume nt: "\<not> is_terminated c"
    show "fst (is_waiting_for_training e c) =
               (\<forall>j\<le>20. pin_at e c (pin_logout (opts e)) (clock c + 100 * j))"
    proof (cases "k = 20")
      case True
      then show ?thesis using r k(3) by (auto simp: le_less)
    next
      case False
      then have "\<not> pin_at e c (pin_logout (opts e)) (clock c + 100 * k)" using k(4) nt by simp
      then show ?thesis using r k(1) by auto
    qed
  }
qed


theorem is_waiting_for_training_spec_witness:
  "\<not> ((is_a_door (opts demo_env) \<and> door_continuous_unlock (opts demo_env)) \<or>
       disable_training_mode (opts demo_env)) \<and>
   \<not> is_terminated demo_idle \<and>
   fst (is_waiting_for_training demo_env demo_idle) \<and>
   \<not> fst (is_waiting_for_training demo_env (demo_idle\<lparr>clock := 3500\<rparr>)) \<and>
   disable_training_mode (opts (demo_env\<lparr>opts := demo_opts\<lparr>disable_training_mode := True\<rparr>\<rparr>)) \<and>
   is_waiting_for_training (demo_env\<lparr>opts := demo_opts\<lparr>disable_training_mode := True\<rparr>\<rparr>)
     demo_idle = (False, demo_idle)"
proof -
  have en: "\<not> ((is_a_door (opts demo_env) \<and> door_continuous_unlock (opts demo_env)) \<or>
       disable_training_mode (opts demo_env))"
    by (simp add: demo_env_def demo_opts_def)
  have nt: "\<not> is_terminated demo_idle" "\<not> is_terminated (demo_idle\<lparr>clock := 3500\<rparr>)"
    by (simp_all add: is_terminated_def demo_idle_def)
  have p: "pin_at demo_env c (pin_logout (opts demo_env)) t = (t < 5000)" for c t
    by (simp add: pin_at_def device_read_def demo_env_def demo_opts_def demo_signal_def)
  have a: "fst (is_waiting_for_training demo_env demo_idle)"
    using is_waiting_for_training_spec [of demo_env demo_idle] en nt
    by (auto simp: p demo_idle_def)
  have "\<not> (\<forall>j\<le>20. 3500 + 100 * j < (5000::nat))"
    by (auto intro: exI[of _ 20])
  then have b: "\<not> fst (is_waiting_for_training demo_env (demo_idle\<lparr>clock := 3500\<rparr>))"
    using is_waiting_for_training_spec [of demo_env "demo_idle\<lparr>clock := 3500\<rparr>"] en nt
    by (simp add: p)
  have c: "is_waiting_for_training (demo_env\<lparr>opts := demo_opts\<lparr>disable_training_mode := True\<rparr>\<rparr>)
     demo_idle = (False, demo_idle)"
    using is_waiting_for_training_spec
      [of "demo_env\<lparr>opts := demo_opts\<lparr>disable_training_mode := True\<rparr>\<rparr>" demo_idle]
    by simp
  show ?thesis using en nt a b c by simp
qed

subsection \<open>Safe power-down\<close>

lemmas device_defs =
  device_write_def sleep_def show_screen_def set_alarm_output_def show_red_led_def
  show_yellow_led_def show_blue_led_def show_green_led_def show_magenta_led_def
  toggle_red_led_def Let_def

lemma poll_step_clock:
  "clock (sleep 500 (show_screen Waiting_for_power_down 0 (show_red_led e c))) = clock c + 500"
  by (simp add: device_defs)

lemma poll_step_frame:
  "\<exists>d t. sleep 500 (show_screen Waiting_for_power_down 0 (show_red_led e c)) =
           c\<lparr>device := d, clock := t\<rparr>"
  by (simp add: device_defs) blast

lemma input_read: "signal e p = Some f \<Longrightarrow> device_read e c p = f (clock c)"
  by (simp add: device_read_def)

lemma output_read: "signal e p = None \<Longrightarrow> device_read e c p = pins (device c) p"
  by (simp add: device_read_def)

lemmas power_down_loop_induct =
  power_down_loop.raw_induct [rotated 1, consumes 1, case_names step]

text \<open>The loop changes the device and the clock only.\<close>

lemma power_down_loop_frame:
  "power_down_loop e current r c = Some rc \<Longrightarrow> \<exists>d t. snd rc = c\<lparr>device := d, clock := t\<rparr>"
proof (induction rule: power_down_loop_induct)
  case (step loop e current r c rc)
  show ?case
  proof (cases "before_timeout (clock c - current) (max_power_down_timeout (opts e)) \<and>
         device_read e c (pin_current_sense (opts e))")
    case True
    with step(2) have "loop e current True
        (sleep 500 (show_screen Waiting_for_power_down 0 (show_red_led e c))) = Some rc"
      by simp
    from step(1)[OF this] obtain d t where
      "snd rc = (sleep 500 (show_screen Waiting_for_power_down 0 (show_red_led e c)))\<lparr>device := d, clock := t\<rparr>"
      by blast
    moreover obtain d0 t0 where "sleep 500 (show_screen Waiting_for_power_down 0 (show_red_led e c)) =
           c\<lparr>device := d0, clock := t0\<rparr>" using poll_step_frame by blast
    ultimately have "snd rc = c\<lparr>device := d, clock := t\<rparr>" by simp
    then show ?thesis by blast
  next
    case False
    with step(2) have "rc = (r, c)" by auto
    then have "snd rc = c\<lparr>device := device c, clock := clock c\<rparr>" by simp
    then show ?thesis by blast
  qed
qed


text \<open>The loop ends once the timeout has passed or the signal has dropped.\<close>

lemma power_down_loop_returns:
  assumes "\<not> before_timeout (clock c + 500 * k - current) (max_power_down_timeout (opts e)) \<or>
           (\<exists>f. signal e (pin_current_sense (opts e)) = Some f \<and> \<not> f (clock c + 500 * k))"
  shows "\<exists>rc. power_down_loop e current r c = Some rc"
  using assms
proof (induction k arbitrary: c r)
  case 0
  then have "\<not> (before_timeout (clock c - current) (max_power_down_timeout (opts e)) \<and>
         device_read e c (pin_current_sense (opts e)))"
    by (auto simp: input_read)
  then show ?case by (subst power_down_loop.simps) auto
next
  case (Suc k)
  let ?c = "sleep 500 (show_screen Waiting_for_power_down 0 (show_red_led e c))"
  have "clock ?c + 500 * k = clock c + 500 * Suc k" by (simp add: poll_step_clock)
  then have "\<not> before_timeout (clock ?c + 500 * k - current) (max_power_down_timeout (opts e)) \<or>
           (\<exists>f. signal e (pin_current_sense (opts e)) = Some f \<and> \<not> f (clock ?c + 500 * k))"
    using Suc.prems by (simp only:)
  from Suc.IH[OF this] obtain rc where "power_down_loop e current True ?c = Some rc" by blast
  then show ?case by (subst power_down_loop.simps) auto
qed

lemma wait_for_power_down_frame:
  "wait_for_power_down e c = Some rc \<Longrightarrow> \<exists>d t. snd rc = c\<lparr>device := d, clock := t\<rparr>"
  unfolding wait_for_power_down_def by (rule power_down_loop_frame)

lemma wait_for_logout_coast_time_frame:
  "\<exists>d t. wait_for_logout_coast_time e c = c\<lparr>device := d, clock := t\<rparr>"
proof (cases "logout_coast_time (opts e) = 0")
  case True
  then have "wait_for_logout_coast_time e c = c\<lparr>device := device c, clock := clock c\<rparr>"
    by (simp add: wait_for_logout_coast_time_def)
  then show ?thesis by blast
next
  case False
  then show ?thesis by (simp add: wait_for_logout_coast_time_def device_defs) blast
qed


text \<open>What \<^verbatim>\<open>__disable_power\<close> is when the relay pin reads high.\<close>

lemma disable_power_high:
  assumes "device_read e c (pin_power_relay (opts e))"
    and "disable_power e c = Some c'"
  obtains r c1 c2 where "wait_for_power_down e c = Some (r, c1)"
    and "c2 = (if r then wait_for_logout_coast_time e c1 else c1)"
    and "c' = (if device_read e c2 (pin_power_relay (opts e))
               then show_screen Disabling_power 0
                      (device_write (Write_PIN (pin_power_relay (opts e)) False) c2)
               else c2)"
proof (cases "wait_for_power_down e c")
  case None
  with assms show ?thesis by (simp add: disable_power_def Let_def)
next
  case (Some rc)
  obtain r c1 where rc: "rc = (r, c1)" by (cases rc)
  show ?thesis
  proof (rule that)
    show "wait_for_power_down e c = Some (r, c1)" using Some rc by simp
    show "(if r then wait_for_logout_coast_time e c1 else c1) =
          (if r then wait_for_logout_coast_time e c1 else c1)" ..
    show "c' = (if device_read e (if r then wait_for_logout_coast_time e c1 else c1)
                     (pin_power_relay (opts e))
               then show_screen Disabling_power 0
                      (device_write (Write_PIN (pin_power_relay (opts e)) False)
                         (if r then wait_for_logout_coast_time e c1 else c1))
               else (if r then wait_for_logout_coast_time e c1 else c1))"
      using assms Some rc by (simp add: disable_power_def Let_def)
  qed
qed

lemma disable_power_low:
  "\<not> device_read e c (pin_power_relay (opts e)) \<Longrightarrow> disable_power e c = Some c"
  by (simp add: disable_power_def)

lemma disable_power_frame:
  assumes "disable_power e c = Some c'"
  shows "\<exists>d t. c' = c\<lparr>device := d, clock := t\<rparr>"
proof (cases "device_read e c (pin_power_relay (opts e))")
  case False
  with assms have "c' = c\<lparr>device := device c, clock := clock c\<rparr>"
    by (simp add: disable_power_low)
  then show ?thesis by blast
next
  case True
  from disable_power_high[OF True assms] obtain r c1 c2 where
    w: "wait_for_power_down e c = Some (r, c1)"
    and c2: "c2 = (if r then wait_for_logout_coast_time e c1 else c1)"
    and c': "c' = (if device_read e c2 (pin_power_relay (opts e))
               then show_screen Disabling_power 0
                      (device_write (Write_PIN (pin_power_relay (opts e)) False) c2)
               else c2)"
    by blast
  from wait_for_power_down_frame[OF w] obtain d1 t1 where
    c1: "c1 = c\<lparr>device := d1, clock := t1\<rparr>" by auto
  obtain d2 t2 where c2': "c2 = c\<lparr>device := d2, clock := t2\<rparr>"
  proof (cases r)
    case True
    obtain d t where "wait_for_logout_coast_time e c1 = c1\<lparr>device := d, clock := t\<rparr>"
      using wait_for_logout_coast_time_frame by blast
    with True c2 c1 have "c2 = c\<lparr>device := d, clock := t\<rparr>" by simp
    then show ?thesis using that by blast
  next
    case False
    with c2 c1 show ?thesis using that by simp
  qed
  show ?thesis
  proof (cases "device_read e c2 (pin_power_relay (opts e))")
    case True
    with c' c2' show ?thesis by (simp add: device_defs) blast
  next
    case False
    with c' c2' show ?thesis by auto
  qed
qed

lemma disable_power_relay_low:
  assumes "signal e (pin_power_relay (opts e)) = None"
    and "disable_power e c = Some c'"
  shows "\<not> relay_commanded e c'"
proof (cases "device_read e c (pin_power_relay (opts e))")
  case False
  with assms show ?thesis by (simp add: disable_power_low relay_commanded_def output_read)
next
  case True
  from disable_power_high[OF True assms(2)] obtain r c1 c2 where
    c': "c' = (if device_read e c2 (pin_power_relay (opts e))
               then show_screen Disabling_power 0
                      (device_write (Write_PIN (pin_power_relay (opts e)) False) c2)
               else c2)"
    by blast
  show ?thesis
    using assms(1) unfolding c' relay_commanded_def
    by (simp add: output_read device_defs)
qed

lemma disable_power_returns:
  assumes "max_power_down_timeout (opts e) \<noteq> None \<or>
           (\<exists>f. signal e (pin_current_sense (opts e)) = Some f \<and> (\<forall>t. \<exists>k. \<not> f (t + 500 * k)))"
  shows "\<exists>c'. disable_power e c = Some c'"
proof -
  have "\<exists>k. \<not> before_timeout (clock c + 500 * k - clock c) (max_power_down_timeout (opts e)) \<or>
           (\<exists>f. signal e (pin_current_sense (opts e)) = Some f \<and> \<not> f (clock c + 500 * k))"
    using assms
  proof
    assume "max_power_down_timeout (opts e) \<noteq> None"
    then obtain T where "max_power_down_timeout (opts e) = Some T" by auto
    then have "\<not> before_timeout (clock c + 500 * (2 * T) - clock c) (max_power_down_timeout (opts e))"
      by (simp add: before_timeout_def)
    then show ?thesis by blast
  next
    assume "\<exists>f. signal e (pin_current_sense (opts e)) = Some f \<and> (\<forall>t. \<exists>k. \<not> f (t + 500 * k))"
    then show ?thesis by blast
  qed
  then obtain k where "\<not> before_timeout (clock c + 500 * k - clock c) (max_power_down_timeout (opts e)) \<or>
           (\<exists>f. signal e (pin_current_sense (opts e)) = Some f \<and> \<not> f (clock c + 500 * k))"
    by blast
  from power_down_loop_returns[OF this, of False] obtain rc where
    "wait_for_power_down e c = Some rc" by (auto simp: wait_for_power_down_def)
  then show ?thesis by (cases rc) (simp add: disable_power_def Let_def)
qed




subsection \<open>The relay after each entry\<close>

lemmas ensure_defs =
  ensure_estop_def ensure_bypass_def ensure_idle_def ensure_unlocked_def ensure_in_use_def
  ensure_training_mode_def

lemmas on_enter_defs =
  on_enter_estop_def on_enter_bypassed_def on_enter_idle_def on_enter_unlocked_def
  on_enter_in_use_def on_enter_in_training_def on_enter_terminated_def

lemmas timer_defs =
  cancel_logout_timer_def cancel_relock_timer_def start_logout_timer_def
  start_relock_timer_def do_logout_def update_user_context_def enqueue_def Let_def

text \<open>Writes to the LEDs, the alarm and the LCD leave the relay alone when the alarm
  has a pin of its own.\<close>

lemma relay_commanded_leds:
  assumes "use_alarm (opts e) \<longrightarrow> pin_alarm (opts e) \<noteq> pin_power_relay (opts e)"
  shows "relay_commanded e (show_red_led e c) = relay_commanded e c"
    and "relay_commanded e (show_yellow_led e c) = relay_commanded e c"
    and "relay_commanded e (show_blue_led e c) = relay_commanded e c"
    and "relay_commanded e (show_green_led e c) = relay_commanded e c"
    and "relay_commanded e (show_magenta_led e c) = relay_commanded e c"
    and "relay_commanded e (toggle_red_led e c) = relay_commanded e c"
  using assms by (auto simp: relay_commanded_def device_defs)

lemma relay_commanded_other:
  "relay_commanded e (show_screen s n c) = relay_commanded e c"
  "relay_commanded e (sleep n c) = relay_commanded e c"
  "relay_commanded e (do_logout c) = relay_commanded e c"
  "relay_commanded e (start_logout_timer b c) = relay_commanded e c"
  "relay_commanded e (start_relock_timer c) = relay_commanded e c"
  "relay_commanded e (cancel_logout_timer b c) = relay_commanded e c"
  "relay_commanded e (enqueue t a c) = relay_commanded e c"
  "relay_commanded e (update_status c) = relay_commanded e c"
  "relay_commanded e (update_user_context u c) = relay_commanded e c"
  "relay_commanded e (enable_power e c)"
  by (auto simp: relay_commanded_def device_defs timer_defs update_status_def enable_power_def
      split: option.splits)

lemma on_enter_relay:
  assumes out: "signal e (pin_power_relay (opts e)) = None"
    and alarm: "use_alarm (opts e) \<longrightarrow> pin_alarm (opts e) \<noteq> pin_power_relay (opts e)"
    and ret: "on_enter e s c = Some c'"
    and s: "s \<noteq> INITIALIZED"
  shows "relay_commanded e c' = (s = IN_USE \<or> s = UNLOCKED)"
proof -
  note low = disable_power_relay_low [OF out]
  note simps = relay_commanded_leds [OF alarm] relay_commanded_other
  show ?thesis
  proof (cases s)
    case INITIALIZED
    with s show ?thesis by simp
  next
    case IDLE
    with ret obtain c1 where "disable_power e (do_logout c) = Some c1"
      and "c' = (let c2 = sleep 500 (show_screen Scan_badge 0 (show_blue_led e c1))
                 in if is_bypass_detected e c2 then enqueue Bypass None c2 else c2)"
      by (auto simp: on_enter_def on_enter_defs ensure_defs bind_eq_Some_conv Let_def)
    with low IDLE show ?thesis by (simp add: simps Let_def)
  next
    case IN_USE
    with ret show ?thesis by (auto simp: on_enter_def on_enter_defs ensure_defs simps)
  next
    case UNLOCKED
    with ret show ?thesis by (auto simp: on_enter_def on_enter_defs ensure_defs simps)
  next
    case IN_TRAINING
    with ret obtain c1 where "disable_power e (do_logout c) = Some c1"
      and "c' = show_screen Scan_trainer_badge 0
                  (show_screen Training_mode_activated 1 (show_magenta_led e c1))"
      by (auto simp: on_enter_def on_enter_defs ensure_defs bind_eq_Some_conv)
    with low IN_TRAINING show ?thesis by (simp add: simps)
  next
    case ESTOP
    with ret obtain c1 where "disable_power e (do_logout c) = Some c1"
      and "c' = show_screen Estop_activated 0 (show_red_led e c1)"
      by (auto simp: on_enter_def on_enter_defs ensure_defs bind_eq_Some_conv)
    with low ESTOP show ?thesis by (simp add: simps)
  next
    case BYPASSED
    with ret obtain c1 where "disable_power e (do_logout c) = Some c1"
      and "c' = show_screen Is_bypassed 0 (show_yellow_led e c1)"
      by (auto simp: on_enter_def on_enter_defs ensure_defs bind_eq_Some_conv)
    with low BYPASSED show ?thesis by (simp add: simps)
  next
    case TERMINATED
    with ret obtain c1 where "disable_power e (do_logout c) = Some c1"
      and "c' = show_screen Scan_badge 0 (show_blue_led e c1)"
      by (auto simp: on_enter_def on_enter_defs ensure_defs bind_eq_Some_conv)
    with low TERMINATED show ?thesis by (simp add: simps)
  qed
qed

text \<open>The entry actions never assign the state.\<close>

lemma disable_power_state: "disable_power e c = Some c' \<Longrightarrow> state c' = state c"
  by (drule disable_power_frame) auto

lemma on_enter_state:
  assumes "on_enter e s c = Some c'"
  shows "state c' = state c"
proof -
  have st: "state (do_logout c) = state c"
    by (simp add: timer_defs split: option.splits)
  show ?thesis
    using assms st
    by (cases s)
       (auto simp: on_enter_def on_enter_defs ensure_defs bind_eq_Some_conv Let_def
          device_defs timer_defs enable_power_def
          dest!: disable_power_state split: if_splits option.splits)
qed

text \<open>A trigger that made a transition ran the entry action of a destination of the
  table and then \<^verbatim>\<open>update_status\<close>.\<close>

lemma execute_done:
  assumes "execute e tr badge c = Some (True, c')"
  shows "\<exists>c1 c2. on_enter e (dest tr) (c1\<lparr>state := dest tr\<rparr>) = Some c2 \<and> c' = update_status c2"
  using assms
  by (auto simp: execute_def bind_eq_Some_conv split: if_splits)

lemma execute_first_done:
  "execute_first e trs badge c = Some (True, c') \<Longrightarrow>
     \<exists>tr\<in>set trs. \<exists>c0. execute e tr badge c0 = Some (True, c')"
proof (induction trs arbitrary: c)
  case Nil
  then show ?case by simp
next
  case (Cons tr trs)
  from Cons.prems obtain d c1 where x: "execute e tr badge c = Some (d, c1)"
    and rest: "(if d then Some (True, c1) else execute_first e trs badge c1) = Some (True, c')"
    by (auto simp: bind_eq_Some_conv)
  show ?case
  proof (cases d)
    case True
    with x rest show ?thesis by auto
  next
    case False
    with rest have "execute_first e trs badge c1 = Some (True, c')" by simp
    from Cons.IH[OF this] show ?thesis by auto
  qed
qed

lemma fire_done:
  assumes "fire e t badge c = Some (True, c')"
  shows "\<exists>tr\<in>set transitions. \<exists>c1 c2. trigger tr = t \<and> state c \<in> set (source tr) \<and>
           on_enter e (dest tr) (c1\<lparr>state := dest tr\<rparr>) = Some c2 \<and> c' = update_status c2"
proof -
  from assms obtain tr c0 where
    "tr \<in> set (filter (\<lambda>tr. trigger tr = t \<and> state c \<in> set (source tr)) transitions)"
    and "execute e tr badge c0 = Some (True, c')"
    unfolding fire_def by (blast dest: execute_first_done)
  then show ?thesis using execute_done by fastforce
qed

lemma dest_not_initialized: "tr \<in> set transitions \<Longrightarrow> dest tr \<noteq> INITIALIZED"
  by (auto simp: transitions_def)

lemma fire_done_state:
  assumes "fire e t badge c = Some (True, c')"
  obtains tr c1 c2 where "tr \<in> set transitions" "trigger tr = t" "state c \<in> set (source tr)"
    "on_enter e (dest tr) (c1\<lparr>state := dest tr\<rparr>) = Some c2" "c' = update_status c2"
    "state c' = dest tr"
proof -
  from fire_done[OF assms] obtain tr c1 c2 where a: "tr \<in> set transitions" "trigger tr = t"
    "state c \<in> set (source tr)"
    "on_enter e (dest tr) (c1\<lparr>state := dest tr\<rparr>) = Some c2" "c' = update_status c2"
    by blast
  from on_enter_state[OF a(4)] a(5) have "state c' = dest tr" by (simp add: update_status_def)
  with a show ?thesis using that by blast
qed

lemma on_enter_returns:
  assumes "power_down_ends e"
  shows "\<exists>c'. on_enter e s c = Some c'"
proof -
  from disable_power_returns[of e "do_logout c"] assms obtain c1 where
    "disable_power e (do_logout c) = Some c1"
    by (auto simp: power_down_ends_def)
  then show ?thesis
    by (cases s) (simp_all add: on_enter_def on_enter_defs ensure_defs Let_def)
qed

text \<open>
  C1.  The relay pin being an output and the alarm having a pin of its own: the entry
  action of IN\_USE and of UNLOCKED leaves the relay commanded high, the entry action
  of IDLE, ESTOP, BYPASSED, IN\_TRAINING and TERMINATED leaves it commanded low, and
  after every trigger that made a transition the relay is commanded high exactly when
  the new state is IN\_USE or UNLOCKED.  Every entry action returns when the power-down
  poll ends.
\<close>

theorem relay_follows_state:
  assumes "signal e (pin_power_relay (opts e)) = None"
    and "use_alarm (opts e) \<longrightarrow> pin_alarm (opts e) \<noteq> pin_power_relay (opts e)"
  shows "(s \<noteq> INITIALIZED \<and> on_enter e s c = Some c1 \<longrightarrow>
            relay_commanded e c1 = (s = IN_USE \<or> s = UNLOCKED)) \<and>
         (power_down_ends e \<longrightarrow> on_enter e s c \<noteq> None) \<and>
         (fire e t badge c = Some (True, c') \<longrightarrow>
            relay_commanded e c' = (state c' = IN_USE \<or> state c' = UNLOCKED))"
proof (intro conjI impI)
  assume "s \<noteq> INITIALIZED \<and> on_enter e s c = Some c1"
  then show "relay_commanded e c1 = (s = IN_USE \<or> s = UNLOCKED)"
    using on_enter_relay[OF assms] by blast
next
  assume "power_down_ends e"
  then show "on_enter e s c \<noteq> None" using on_enter_returns[of e s c] by auto
next
  assume "fire e t badge c = Some (True, c')"
  then obtain tr c1 c2 where tr: "tr \<in> set transitions"
    and ent: "on_enter e (dest tr) (c1\<lparr>state := dest tr\<rparr>) = Some c2"
    and c': "c' = update_status c2" and st: "state c' = dest tr"
    by (rule fire_done_state)
  from on_enter_relay[OF assms ent dest_not_initialized[OF tr]]
  show "relay_commanded e c' = (state c' = IN_USE \<or> state c' = UNLOCKED)"
    unfolding c' st[unfolded c'] by (simp add: relay_commanded_other)
qed

subsection \<open>Evaluating the concrete installation\<close>

lemmas demo_defs =
  demo_env_def demo_opts_def demo_signal_def demo_device_def demo_idle_def demo_in_use_def
  alice_def

lemmas machine_defs =
  fire_def transitions_def all_states_def execute_def check_condition_def is_authorized_def
  do_login_def on_enter_def update_status_def state_name_def enable_power_def
  should_extend_current_session_def is_current_badge_code_def truthy_def
  extend_session_def show_remaining_time_def extensions_truthy_def
  handle_unauthorized_access_exception_def handle_unexpected_exception_def
  is_bypass_detected_def is_estop_activated_def is_terminated_def device_read_def
  disable_power_def wait_for_power_down_def wait_for_logout_coast_time_def before_timeout_def
  logout_timer_interval_seconds_def

lemmas eval_defs =
  machine_defs demo_defs on_enter_defs ensure_defs device_defs timer_defs
  power_down_loop.simps

lemma demo_pins:
  "signal demo_env (pin_power_relay (opts demo_env)) = None"
  "use_alarm (opts demo_env)"
  "pin_alarm (opts demo_env) \<noteq> pin_power_relay (opts demo_env)"
  by (simp_all add: demo_defs)

lemma demo_login:
  "map_option (\<lambda>rc. (fst rc, state (snd rc)))
     (fire demo_env Login (Some ''A1'') demo_idle) = Some (True, IN_USE)"
  by (simp add: eval_defs)

lemma demo_logout:
  "map_option (\<lambda>rc. (fst rc, state (snd rc)))
     (fire demo_env Logout None (demo_in_use 5)) = Some (True, IDLE)"
  by (simp add: eval_defs)

theorem relay_follows_state_witness:
  "signal demo_env (pin_power_relay (opts demo_env)) = None \<and>
   use_alarm (opts demo_env) \<and> pin_alarm (opts demo_env) \<noteq> pin_power_relay (opts demo_env) \<and>
   (\<exists>c'. fire demo_env Login (Some ''A1'') demo_idle = Some (True, c') \<and>
         state c' = IN_USE \<and> relay_commanded demo_env c') \<and>
   (\<exists>c'. fire demo_env Logout None (demo_in_use 5) = Some (True, c') \<and>
         state c' = IDLE \<and> \<not> relay_commanded demo_env c')"
proof -
  have alarm: "use_alarm (opts demo_env) \<longrightarrow>
      pin_alarm (opts demo_env) \<noteq> pin_power_relay (opts demo_env)"
    using demo_pins by simp
  note spec = relay_follows_state [OF demo_pins(1) alarm, THEN conjunct2, THEN conjunct2,
    rule_format]
  from demo_login obtain c1 where
    c1: "fire demo_env Login (Some ''A1'') demo_idle = Some (True, c1)" "state c1 = IN_USE"
    by auto
  from demo_logout obtain c2 where
    c2: "fire demo_env Logout None (demo_in_use 5) = Some (True, c2)" "state c2 = IDLE"
    by auto
  from spec [OF c1(1)] c1(2) have "relay_commanded demo_env c1" by simp
  moreover from spec [OF c2(1)] c2(2) have "\<not> relay_commanded demo_env c2" by simp
  ultimately show ?thesis using demo_pins c1 c2 by blast
qed

subsection \<open>The status file\<close>

text \<open>
  C8.  After every trigger that made a transition, the status file holds exactly the
  name of the new state followed by one newline, whatever it held before; so does it
  after \<^verbatim>\<open>update_status\<close> called on its own (\<^verbatim>\<open>__enter__\<close>).
\<close>

theorem status_file_after_transition:
  "(fire e t badge c = Some (True, c') \<longrightarrow>
      status_file c' = state_name (state c') @ [CHR 0x0A]) \<and>
   status_file (update_status c) = state_name (state (update_status c)) @ [CHR 0x0A]"
proof (intro conjI impI)
  assume "fire e t badge c = Some (True, c')"
  then obtain tr c1 c2 where "c' = update_status c2"
    by (rule fire_done_state)
  then show "status_file c' = state_name (state c') @ [CHR 0x0A]"
    by (simp add: update_status_def)
next
  show "status_file (update_status c) = state_name (state (update_status c)) @ [CHR 0x0A]"
    by (simp add: update_status_def)
qed

theorem status_file_after_transition_witness:
  "\<exists>c'. fire demo_env Login (Some ''A1'') demo_idle = Some (True, c') \<and>
        status_file demo_idle = ''idle'' @ [CHR 0x0A] \<and>
        status_file c' = ''in_use'' @ [CHR 0x0A]"
proof -
  from demo_login obtain c' where
    c': "fire demo_env Login (Some ''A1'') demo_idle = Some (True, c')" "state c' = IN_USE"
    by auto
  from status_file_after_transition [THEN conjunct1, rule_format, OF c'(1)] c'(2)
  have "status_file c' = ''in_use'' @ [CHR 0x0A]" by (simp add: state_name_def)
  with c' show ?thesis by (auto simp: demo_idle_def)
qed

subsection \<open>E-stop while unlocked\<close>

lemma run_queue_empty: "queue c = [] \<Longrightarrow> run_queue e c = Some c"
  by (subst run_queue.simps) simp

lemma fire_unlocked_ignored:
  assumes "state c = UNLOCKED" and "t \<noteq> Logout" and "t \<noteq> Terminate"
  shows "fire e t badge c = Some (False, c)"
  using assms by (cases t) (simp_all add: fire_def transitions_def all_states_def)

text \<open>
  C9.  In UNLOCKED, with no transition running, an E-stop change (an activation edge
  as well as a release) returns with the controller, the device and the relay exactly
  as they were; and every trigger other than logout (the relock timer fires logout)
  and terminate is ignored from UNLOCKED.
\<close>

theorem estop_ignored_when_unlocked:
  assumes "state c = UNLOCKED" and "queue c = []"
  shows "estop_change e c = Some c \<and>
         (\<forall>t badge. t \<noteq> Logout \<and> t \<noteq> Terminate \<longrightarrow> fire e t badge c = Some (False, c))"
proof (intro conjI allI impI)
  have "call_trigger e Estop None c = Some c"
  proof -
    let ?c = "enqueue Estop None c"
    have q: "queue ?c = [(Estop, None)]" and st: "state ?c = UNLOCKED"
      using assms by (simp_all add: enqueue_def)
    have f: "fire e Estop None ?c = Some (False, ?c)"
      using st by (rule fire_unlocked_ignored) simp_all
    have popped: "?c\<lparr>queue := []\<rparr> = c"
      using assms(2) by (simp add: enqueue_def)
    have "run_queue e ?c = run_queue e c"
      by (subst run_queue.simps) (simp add: q f popped)
    also have "\<dots> = Some c" using assms(2) by (rule run_queue_empty)
    finally show ?thesis by (simp add: call_trigger_def q)
  qed
  then show "estop_change e c = Some c"
    using assms(1) by (simp add: estop_change_def)
next
  fix t badge assume "t \<noteq> Logout \<and> t \<noteq> Terminate"
  then show "fire e t badge c = Some (False, c)"
    using assms(1) by (simp add: fire_unlocked_ignored)
qed
theorem estop_ignored_when_unlocked_witness:
  "state demo_unlocked = UNLOCKED \<and> queue demo_unlocked = [] \<and>
   is_estop_activated demo_env_estop demo_unlocked \<and>
   relay_commanded demo_env_estop demo_unlocked \<and>
   estop_change demo_env_estop demo_unlocked = Some demo_unlocked \<and>
   fire demo_env_estop Estop None demo_unlocked = Some (False, demo_unlocked)"
proof -
  have a: "state demo_unlocked = UNLOCKED" "queue demo_unlocked = []"
    by (simp_all add: demo_unlocked_def)
  have b: "is_estop_activated demo_env_estop demo_unlocked"
    "relay_commanded demo_env_estop demo_unlocked"
    by (simp_all add: is_estop_activated_def device_read_def relay_commanded_def
        demo_env_estop_def demo_unlocked_def demo_defs)
  from estop_ignored_when_unlocked [OF a, of demo_env_estop] a b
  show ?thesis by simp
qed

subsection \<open>Failed logins\<close>

lemma ensure_idle_result:
  assumes "ensure_idle e c = Some c'"
  shows "user_info c' = None" and "state c' = state c" and "queue c' = queue c"
    and "status_file c' = status_file c"
proof -
  from assms obtain c1 where d: "disable_power e (do_logout c) = Some c1"
    and c': "c' = show_screen Scan_badge 0 (show_blue_led e c1)"
    by (auto simp: ensure_idle_def bind_eq_Some_conv)
  from disable_power_frame[OF d] obtain dv t where
    c1: "c1 = (do_logout c)\<lparr>device := dv, clock := t\<rparr>" by blast
  show "user_info c' = None" and "state c' = state c" and "queue c' = queue c"
    and "status_file c' = status_file c"
    unfolding c' c1 by (simp_all add: device_defs timer_defs split: option.splits)
qed

lemma ensure_idle_returns:
  "power_down_ends e \<Longrightarrow> \<exists>c'. ensure_idle e c = Some c'"
  using disable_power_returns[of e "do_logout c"]
  by (auto simp: ensure_idle_def power_down_ends_def)

lemma ensure_in_use_result:
  "user_info (ensure_in_use e c) = user_info c"
  "state (ensure_in_use e c) = state c"
  "queue (ensure_in_use e c) = queue c"
  "logout_timer (ensure_in_use e c) = logout_timer c"
  by (simp_all add: ensure_in_use_def enable_power_def device_defs)

lemma handlers_result:
  "user_info (handle_unauthorized_access_exception e c) = user_info c"
  "state (handle_unauthorized_access_exception e c) = state c"
  "queue (handle_unauthorized_access_exception e c) = queue c"
  "user_info (handle_unexpected_exception e c) = user_info c"
  "state (handle_unexpected_exception e c) = state c"
  "queue (handle_unexpected_exception e c) = queue c"
  "user_info (show_screen s n c) = user_info c"
  "state (show_screen s n c) = state c"
  "queue (show_screen s n c) = queue c"
  "user_info (cancel_logout_timer b c) = user_info c"
  "state (cancel_logout_timer b c) = state c"
  "queue (cancel_logout_timer b c) = queue c"
  by (simp_all add: handle_unauthorized_access_exception_def handle_unexpected_exception_def
      device_defs timer_defs)

text \<open>A login that fails, by its two forms.\<close>

lemma do_login_normal_failure:
  assumes "\<forall>u. server_login e badge \<noteq> Granted u"
    and "do_login e False badge c = Some (r, c')"
  shows "\<not> r \<and> user_info c' = None \<and> state c' = state c \<and> queue c' = queue c"
proof -
  from assms obtain c0 where idle: "ensure_idle e c0 = Some c'"
    and c0: "state c0 = state c" "queue c0 = queue c" and r: "r = (user_info c' \<noteq> None)"
    by (cases "server_login e badge")
       (auto simp: do_login_def Let_def bind_eq_Some_conv handlers_result)
  from ensure_idle_result[OF idle] c0 r show ?thesis by simp
qed

lemma do_login_normal_returns:
  assumes "\<forall>u. server_login e badge \<noteq> Granted u" and "power_down_ends e"
  shows "\<exists>c'. do_login e False badge c = Some (False, c')"
proof -
  obtain c0 where c0: "c0 = (case server_login e badge of
        UnauthorizedAccessException \<Rightarrow>
          handle_unauthorized_access_exception e (show_screen Attempting_login 1 c)
      | _ \<Rightarrow> handle_unexpected_exception e (show_screen Attempting_login 1 c))"
    by blast
  from ensure_idle_returns[OF assms(2), of c0] obtain c' where
    idle: "ensure_idle e c0 = Some c'" by blast
  from ensure_idle_result(1)[OF idle] have "user_info c' = None" .
  with idle c0 assms(1) show ?thesis
    by (cases "server_login e badge") (auto simp: do_login_def Let_def)
qed

lemma do_login_override_failure:
  assumes "\<forall>u. server_login e badge \<noteq> Granted u"
  shows "\<exists>c'. do_login e True badge c = Some (user_info c \<noteq> None, c') \<and>
              user_info c' = user_info c \<and> state c' = state c \<and> queue c' = queue c \<and>
              logout_timer c' = logout_timer c"
  using assms
  by (cases "server_login e badge")
     (auto simp: do_login_def Let_def handlers_result ensure_in_use_result
        handle_unauthorized_access_exception_def handle_unexpected_exception_def
        device_defs)

text \<open>
  C4, as the code has it.  When the server answers a login with unauthorized: a normal
  login (the guard \<^verbatim>\<open>is_authorized\<close>), if it returns, returns false with the user context
  empty and the state as it was (IDLE for a login from IDLE), and it does return when
  the power-down poll ends; an override attempt (the guard
  \<^verbatim>\<open>should_extend_current_session\<close> on another badge with override allowed) returns true
  with the state as it was (IN\_USE) and the user context as it was, the previous user
  still present.
\<close>

theorem unauthorized_login:
  assumes "server_login e badge = UnauthorizedAccessException"
  shows "(is_authorized e badge c = Some (r, c') \<longrightarrow>
            \<not> r \<and> user_info c' = None \<and> state c' = state c) \<and>
         (power_down_ends e \<longrightarrow> (\<exists>c1. is_authorized e badge c = Some (False, c1))) \<and>
         (\<not> is_current_badge_code badge c \<and> allow_user_override (opts e) \<longrightarrow>
            (\<exists>c2. should_extend_current_session e badge c = Some (True, c2) \<and>
                  user_info c2 = user_info c \<and> state c2 = state c))"
proof -
  have nog: "\<forall>u. server_login e badge \<noteq> Granted u" using assms by simp
  have normal: "is_authorized e badge c = Some (r, c') \<longrightarrow>
            \<not> r \<and> user_info c' = None \<and> state c' = state c"
  proof
    assume "is_authorized e badge c = Some (r, c')"
    then have "do_login e False badge c = Some (r, c')" by (simp add: is_authorized_def)
    from do_login_normal_failure[OF nog this]
    show "\<not> r \<and> user_info c' = None \<and> state c' = state c" by simp
  qed
  have returns: "power_down_ends e \<longrightarrow> (\<exists>c1. is_authorized e badge c = Some (False, c1))"
  proof
    assume "power_down_ends e"
    from do_login_normal_returns[OF nog this, of c]
    show "\<exists>c1. is_authorized e badge c = Some (False, c1)" by (simp add: is_authorized_def)
  qed
  have override: "\<not> is_current_badge_code badge c \<and> allow_user_override (opts e) \<longrightarrow>
            (\<exists>c2. should_extend_current_session e badge c = Some (True, c2) \<and>
                  user_info c2 = user_info c \<and> state c2 = state c)"
  proof
    assume a: "\<not> is_current_badge_code badge c \<and> allow_user_override (opts e)"
    from do_login_override_failure[OF nog, of "cancel_logout_timer False c"]
    obtain c2 where "do_login e True badge (cancel_logout_timer False c) =
        Some (user_info c \<noteq> None, c2)" "user_info c2 = user_info c" "state c2 = state c"
      by (auto simp: handlers_result)
    with a show "\<exists>c2. should_extend_current_session e badge c = Some (True, c2) \<and>
                  user_info c2 = user_info c \<and> state c2 = state c"
      by (simp add: should_extend_current_session_def)
  qed
  from normal returns override show ?thesis by (intro conjI)
qed

lemma demo_override_denied:
  "map_option (\<lambda>rc. (fst rc, user_info (snd rc) = None, state (snd rc)))
     (should_extend_current_session demo_env (Some ''B2'') (demo_in_use 5)) =
   Some (True, False, IN_USE)"
  by (simp add: eval_defs)

theorem unauthorized_override_counterexample:
  "server_login demo_env (Some ''B2'') = UnauthorizedAccessException \<and>
   state (demo_in_use 5) = IN_USE \<and>
   allow_user_override (opts demo_env) \<and>
   (\<exists>c'. should_extend_current_session demo_env (Some ''B2'') (demo_in_use 5) =
           Some (True, c') \<and>
         user_info c' \<noteq> None \<and> state c' = IN_USE)"
proof -
  from demo_override_denied obtain c' where
    "should_extend_current_session demo_env (Some ''B2'') (demo_in_use 5) = Some (True, c')"
    "user_info c' \<noteq> None" "state c' = IN_USE"
    by auto
  then show ?thesis by (auto simp: demo_defs)
qed

theorem unauthorized_login_witness:
  "server_login demo_env (Some ''B2'') = UnauthorizedAccessException \<and>
   power_down_ends demo_env \<and>
   (\<exists>c1. is_authorized demo_env (Some ''B2'') demo_idle = Some (False, c1) \<and>
         user_info c1 = None \<and> state c1 = IDLE) \<and>
   \<not> is_current_badge_code (Some ''B2'') (demo_in_use 5) \<and>
   allow_user_override (opts demo_env) \<and>
   (\<exists>c2. should_extend_current_session demo_env (Some ''B2'') (demo_in_use 5) =
           Some (True, c2) \<and>
         user_info c2 = Some (alice\<lparr>remaining_seconds := 5\<rparr>) \<and> state c2 = IN_USE)"
proof -
  have s: "server_login demo_env (Some ''B2'') = UnauthorizedAccessException"
    by (simp add: demo_defs)
  have p: "power_down_ends demo_env" by (simp add: power_down_ends_def demo_defs)
  have o: "\<not> is_current_badge_code (Some ''B2'') (demo_in_use 5) \<and>
      allow_user_override (opts demo_env)"
    by (simp add: is_current_badge_code_def truthy_def demo_defs)
  from unauthorized_login [OF s, THEN conjunct2, THEN conjunct1, rule_format, OF p, of demo_idle]
  obtain c1 where c1: "is_authorized demo_env (Some ''B2'') demo_idle = Some (False, c1)"
    by blast
  from unauthorized_login [OF s, THEN conjunct1, rule_format, OF c1]
  have n: "user_info c1 = None" "state c1 = IDLE" by (simp_all add: demo_defs)
  from unauthorized_login [OF s, THEN conjunct2, THEN conjunct2, rule_format, OF o]
  obtain c2 where
    "should_extend_current_session demo_env (Some ''B2'') (demo_in_use 5) = Some (True, c2)"
    "user_info c2 = user_info (demo_in_use 5)" "state c2 = state (demo_in_use 5)"
    by blast
  then have "\<exists>c2. should_extend_current_session demo_env (Some ''B2'') (demo_in_use 5) =
           Some (True, c2) \<and>
         user_info c2 = Some (alice\<lparr>remaining_seconds := 5\<rparr>) \<and> state c2 = IN_USE"
    by (auto simp: demo_in_use_def)
  with s p o c1 n show ?thesis by blast
qed

subsection \<open>A failed override\<close>

lemma fire_login_in_use:
  assumes "state c = IN_USE"
  shows "fire e Login badge c =
           (case should_extend_current_session e badge c of
              None \<Rightarrow> None
            | Some (ok, c1) \<Rightarrow>
                if ok
                then Some (True, update_status
                       (start_logout_timer False (ensure_in_use e (c1\<lparr>state := IN_USE\<rparr>))))
                else Some (False, c1))"
  using assms
  by (cases "should_extend_current_session e badge c")
     (auto simp: fire_def transitions_def all_states_def execute_def check_condition_def
        on_enter_def on_enter_in_use_def)

lemma entered_in_use:
  "state (update_status (start_logout_timer False (ensure_in_use e (c\<lparr>state := IN_USE\<rparr>)))) = IN_USE"
  "user_info (update_status (start_logout_timer False (ensure_in_use e (c\<lparr>state := IN_USE\<rparr>)))) =
     user_info c"
  "queue (update_status (start_logout_timer False (ensure_in_use e (c\<lparr>state := IN_USE\<rparr>)))) =
     queue c"
  "clock (update_status (start_logout_timer False (ensure_in_use e (c\<lparr>state := IN_USE\<rparr>)))) =
     clock c"
  "logout_timer (update_status (start_logout_timer False (ensure_in_use e (c\<lparr>state := IN_USE\<rparr>)))) =
     Some (clock c + 1000)"
  by (simp_all add: update_status_def ensure_in_use_def enable_power_def device_defs timer_defs
      logout_timer_interval_seconds_def)

text \<open>
  C10.  In IN\_USE with a user present, override allowed, a badge other than the
  user's scanned and the server's login failing (unauthorized or any other error): the
  guard \<^verbatim>\<open>should_extend_current_session\<close> returns true with the user context as it was,
  and the login trigger makes the transition from IN\_USE to IN\_USE, after which the
  user context is still the previous user's, with the same remaining seconds, and the
  session timer is live again, due one interval later.
\<close>

theorem override_failure_keeps_session:
  assumes "state c = IN_USE" and "user_info c = Some u" and "badge \<noteq> Some (badge_code u)"
    and "allow_user_override (opts e)" and "\<forall>u'. server_login e badge \<noteq> Granted u'"
  shows "\<exists>c1 c'. should_extend_current_session e badge c = Some (True, c1) \<and>
           user_info c1 = Some u \<and> logout_timer c1 = None \<and>
           fire e Login badge c = Some (True, c') \<and>
           state c' = IN_USE \<and> user_info c' = Some u \<and>
           logout_timer c' = Some (clock c' + 1000)"
proof -
  have nc: "\<not> is_current_badge_code badge c"
    using assms(2,3) by (auto simp: is_current_badge_code_def)
  from do_login_override_failure[OF assms(5), of "cancel_logout_timer False c"]
  obtain c1 where c1: "do_login e True badge (cancel_logout_timer False c) = Some (True, c1)"
    "user_info c1 = Some u" "logout_timer c1 = None"
    using assms(2) by (auto simp: handlers_result cancel_logout_timer_def)
  have g: "should_extend_current_session e badge c = Some (True, c1)"
    using nc assms(4) c1(1) by (simp add: should_extend_current_session_def)
  let ?c' = "update_status (start_logout_timer False (ensure_in_use e (c1\<lparr>state := IN_USE\<rparr>)))"
  have f: "fire e Login badge c = Some (True, ?c')"
    using g by (simp add: fire_login_in_use[OF assms(1)])
  show ?thesis
    using g c1 f by (intro exI[of _ c1] exI[of _ ?c']) (simp add: entered_in_use)
qed

theorem override_failure_keeps_session_witness:
  "state (demo_in_use 5) = IN_USE \<and>
   user_info (demo_in_use 5) = Some (alice\<lparr>remaining_seconds := 5\<rparr>) \<and>
   Some ''B2'' \<noteq> Some (badge_code (alice\<lparr>remaining_seconds := 5\<rparr>)) \<and>
   allow_user_override (opts demo_env) \<and>
   (\<exists>c'. fire demo_env Login (Some ''B2'') (demo_in_use 5) = Some (True, c') \<and>
         state c' = IN_USE \<and> user_info c' = Some (alice\<lparr>remaining_seconds := 5\<rparr>) \<and>
         logout_timer c' = Some (clock c' + 1000))"
proof -
  have a: "state (demo_in_use 5) = IN_USE"
    "user_info (demo_in_use 5) = Some (alice\<lparr>remaining_seconds := 5\<rparr>)"
    "Some ''B2'' \<noteq> Some (badge_code (alice\<lparr>remaining_seconds := 5\<rparr>))"
    "allow_user_override (opts demo_env)"
    "\<forall>u'. server_login demo_env (Some ''B2'') \<noteq> Granted u'"
    by (simp_all add: demo_defs)
  from override_failure_keeps_session [OF a] a(1-4) show ?thesis by blast
qed

subsection \<open>Extending a session\<close>

text \<open>A trigger called while no transition runs: the queue holds it alone, it is fired
  and removed.\<close>

lemma call_trigger_single:
  assumes "queue c = []"
    and "fire e t badge (enqueue t badge c) = Some (r, c1)"
    and "queue c1 = [(t, badge)]"
  shows "call_trigger e t badge c = Some (c1\<lparr>queue := []\<rparr>)"
proof -
  let ?c = "enqueue t badge c"
  have q: "queue ?c = [(t, badge)]" using assms(1) by (simp add: enqueue_def)
  have "run_queue e ?c = run_queue e (c1\<lparr>queue := []\<rparr>)"
    by (subst run_queue.simps) (simp add: q assms(2,3))
  also have "\<dots> = Some (c1\<lparr>queue := []\<rparr>)" by (rule run_queue_empty) simp
  finally show ?thesis by (simp add: call_trigger_def q)
qed

lemma extend_session_result:
  assumes "user_info c = Some u"
  shows "\<exists>c1. extend_session e c = Some c1 \<and>
           user_info c1 =
             Some (if remaining_extensions u = Finite 0 then u
                   else u\<lparr>remaining_seconds := remaining_seconds u + session_seconds u,
                          remaining_extensions :=
                            (case remaining_extensions u of
                               Finite n \<Rightarrow> Finite (n - 1) | Unbounded \<Rightarrow> Unbounded)\<rparr>) \<and>
           state c1 = state c \<and> queue c1 = queue c \<and> clock c < clock c1"
  using assms
  by (cases "remaining_extensions u")
     (auto simp: extend_session_def show_remaining_time_def extensions_truthy_def
        device_defs timer_defs)

text \<open>
  C5, as the code has it.  In IN\_USE, with no transition running, a scan of the
  current user's badge code, the code not being empty: the guard returns true; the
  scan returns with the state IN\_USE and the session timer live again, due one
  interval after the (later) time of return; when \<^verbatim>\<open>remaining_extensions\<close> is not zero,
  \<^verbatim>\<open>remaining_seconds\<close> has grown by exactly \<^verbatim>\<open>session_seconds\<close> and
  \<^verbatim>\<open>remaining_extensions\<close> has dropped by one, or is still unbounded; when it is zero,
  the user context is unchanged.
\<close>

theorem same_badge_extends_session:
  assumes "state c = IN_USE" and "user_info c = Some u" and "badge_code u \<noteq> []"
    and "queue c = []"
  shows "\<exists>c1 c'. should_extend_current_session e (Some (badge_code u)) c = Some (True, c1) \<and>
           handle_badge_code e (Some (badge_code u)) c = Some c' \<and>
           state c' = IN_USE \<and>
           logout_timer c' = Some (clock c' + 1000) \<and> clock c < clock c' \<and>
           user_info c' =
             Some (if remaining_extensions u = Finite 0 then u
                   else u\<lparr>remaining_seconds := remaining_seconds u + session_seconds u,
                          remaining_extensions :=
                            (case remaining_extensions u of
                               Finite n \<Rightarrow> Finite (n - 1) | Unbounded \<Rightarrow> Unbounded)\<rparr>)"
proof -
  let ?badge = "Some (badge_code u)"
  let ?u' = "if remaining_extensions u = Finite 0 then u
             else u\<lparr>remaining_seconds := remaining_seconds u + session_seconds u,
                    remaining_extensions :=
                      (case remaining_extensions u of
                         Finite n \<Rightarrow> Finite (n - 1) | Unbounded \<Rightarrow> Unbounded)\<rparr>"
  let ?c0 = "enqueue Login ?badge c"
  have cur: "is_current_badge_code ?badge c" "is_current_badge_code ?badge ?c0"
    using assms(2,3) by (simp_all add: is_current_badge_code_def truthy_def enqueue_def)
  from extend_session_result[OF assms(2), of e] obtain c1 where
    c1: "extend_session e c = Some c1" by blast
  have g: "should_extend_current_session e ?badge c = Some (True, c1)"
    using cur(1) c1 by (simp add: should_extend_current_session_def)
  have u0: "user_info ?c0 = Some u" and s0: "state ?c0 = IN_USE"
    and q0: "queue ?c0 = [(Login, ?badge)]"
    using assms by (simp_all add: enqueue_def)
  from extend_session_result[OF u0, of e] obtain c2 where
    c2: "extend_session e ?c0 = Some c2" "user_info c2 = Some ?u'"
    "queue c2 = queue ?c0" "clock ?c0 < clock c2"
    by blast
  let ?c' = "update_status (start_logout_timer False (ensure_in_use e (c2\<lparr>state := IN_USE\<rparr>)))"
  have f: "fire e Login ?badge ?c0 = Some (True, ?c')"
    using cur(2) c2(1) by (simp add: fire_login_in_use[OF s0] should_extend_current_session_def)
  have "queue ?c' = [(Login, ?badge)]" using c2(3) q0 by (simp add: entered_in_use)
  from call_trigger_single[OF assms(4) f this]
  have h: "handle_badge_code e ?badge c = Some (?c'\<lparr>queue := []\<rparr>)"
    using assms(1) by (simp add: handle_badge_code_def)
  have "clock c < clock c2" using c2(4) by (simp add: enqueue_def)
  then show ?thesis
    using g h c2(2)
    by (intro exI[of _ c1] exI[of _ "?c'\<lparr>queue := []\<rparr>"]) (simp add: entered_in_use)
qed

theorem same_badge_extends_session_witness:
  "state (demo_in_use 2600) = IN_USE \<and>
   user_info (demo_in_use 2600) = Some (alice\<lparr>remaining_seconds := 2600\<rparr>) \<and>
   badge_code (alice\<lparr>remaining_seconds := 2600\<rparr>) = ''A1'' \<and>
   queue (demo_in_use 2600) = [] \<and>
   (\<exists>c'. handle_badge_code demo_env (Some ''A1'') (demo_in_use 2600) = Some c' \<and>
         state c' = IN_USE \<and> logout_timer c' = Some (clock c' + 1000) \<and>
         user_info c' =
           Some (alice\<lparr>remaining_seconds := 6200, remaining_extensions := Finite 1\<rparr>))"
proof -
  have a: "state (demo_in_use 2600) = IN_USE"
    "user_info (demo_in_use 2600) = Some (alice\<lparr>remaining_seconds := 2600\<rparr>)"
    "badge_code (alice\<lparr>remaining_seconds := 2600\<rparr>) \<noteq> []"
    "queue (demo_in_use 2600) = []"
    by (simp_all add: demo_defs)
  have b: "badge_code (alice\<lparr>remaining_seconds := 2600\<rparr>) = ''A1''"
    by (simp add: demo_defs)
  from same_badge_extends_session [OF a, of demo_env] obtain c' where
    "handle_badge_code demo_env (Some ''A1'') (demo_in_use 2600) = Some c'"
    "state c' = IN_USE" "logout_timer c' = Some (clock c' + 1000)"
    "user_info c' =
       Some (alice\<lparr>remaining_seconds := 6200, remaining_extensions := Finite 1\<rparr>)"
    unfolding b by (auto simp: alice_def)
  with a(1,2,4) b show ?thesis by blast
qed

theorem empty_badge_counterexample:
  "state demo_nobody = IN_USE \<and>
   user_info demo_nobody = Some nobody \<and>
   badge_code nobody = [] \<and>
   remaining_extensions nobody = Finite 2 \<and>
   should_extend_current_session demo_env_no_override (Some []) demo_nobody =
     Some (False, demo_nobody) \<and>
   handle_badge_code demo_env_no_override (Some []) demo_nobody = Some demo_nobody"
proof -
  have a: "state demo_nobody = IN_USE" "user_info demo_nobody = Some nobody"
    "badge_code nobody = []" "remaining_extensions nobody = Finite 2"
    "queue demo_nobody = []"
    by (simp_all add: demo_nobody_def nobody_def demo_defs)
  have g: "should_extend_current_session demo_env_no_override (Some []) c = Some (False, c)"
    if "user_info c = Some nobody" for c
    using that a(3)
    by (simp add: should_extend_current_session_def is_current_badge_code_def truthy_def
        demo_env_no_override_def)
  let ?c0 = "enqueue Login (Some []) demo_nobody"
  have "fire demo_env_no_override Login (Some []) ?c0 = Some (False, ?c0)"
    using a(1,2) by (simp add: fire_login_in_use g enqueue_def)
  moreover have "queue ?c0 = [(Login, Some [])]" using a(5) by (simp add: enqueue_def)
  ultimately have "call_trigger demo_env_no_override Login (Some []) demo_nobody =
      Some (?c0\<lparr>queue := []\<rparr>)"
    using a(5) by (intro call_trigger_single)
  moreover have "?c0\<lparr>queue := []\<rparr> = demo_nobody" using a(5) by (simp add: enqueue_def)
  ultimately have "handle_badge_code demo_env_no_override (Some []) demo_nobody =
      Some demo_nobody"
    using a(1) by (simp add: handle_badge_code_def)
  with a g[OF a(2)] show ?thesis by simp
qed

subsection \<open>Session expiry\<close>













end
